theory Spec2Isabelle
  imports Main "HOL-Library.Word" "HOL-Library.Char_ord" "HOL-Library.List_Lexorder"
    "HOL-Library.Multiset"
begin

section \<open>Strings as the gateway uses them\<close>

text \<open>
  Go strings are byte sequences; they are modelled as \<open>string\<close> (a list of 8-bit
  characters). The order on strings is the bytewise lexicographic order of Go's
  comparison operators.
\<close>

text \<open>\<open>strings.Split(s, sep)\<close> for a one-byte separator: the result is never empty, and
  \<open>Split("", sep)\<close> is the one-element slice holding the empty string.\<close>

fun Split :: "char \<Rightarrow> string \<Rightarrow> string list" where
  "Split sep [] = [[]]"
| "Split sep (c # cs) =
     (if c = sep then [] # Split sep cs
      else (case Split sep cs of
              [] \<Rightarrow> [[c]]
            | w # ws \<Rightarrow> (c # w) # ws))"

text \<open>\<open>strings.Join(elems, sep)\<close> for a one-byte separator.\<close>

fun Join :: "char \<Rightarrow> string list \<Rightarrow> string" where
  "Join sep [] = []"
| "Join sep [x] = x"
| "Join sep (x # y # ys) = x @ sep # Join sep (y # ys)"

text \<open>\<open>strings.HasPrefix\<close> and \<open>strings.Contains\<close>.\<close>

fun HasPrefix :: "string \<Rightarrow> string \<Rightarrow> bool" where
  "HasPrefix s [] = True"
| "HasPrefix [] (p # ps) = False"
| "HasPrefix (c # cs) (p # ps) = (c = p \<and> HasPrefix cs ps)"

fun Contains :: "string \<Rightarrow> string \<Rightarrow> bool" where
  "Contains [] sub = (sub = [])"
| "Contains (c # cs) sub = (HasPrefix (c # cs) sub \<or> Contains cs sub)"

section \<open>Constants of the tree client\<close>

definition oidKV :: string where "oidKV = ''OID''"
definition fileNameKV :: string where "fileNameKV = ''FileName''"
definition isUnversionedKV :: string where "isUnversionedKV = ''IsUnversioned''"
definition uploadIDKV :: string where "uploadIDKV = ''UploadId''"
definition partNumberKV :: string where "partNumberKV = ''Number''"
definition sizeKV :: string where "sizeKV = ''Size''"
definition etagKV :: string where "etagKV = ''ETag''"
definition isDeleteMarkerKV :: string where "isDeleteMarkerKV = ''IsDeleteMarker''"
definition ownerKV :: string where "ownerKV = ''Owner''"
definition createdKV :: string where "createdKV = ''Created''"
definition emptyFileName :: string where "emptyFileName = ''<empty>''"
definition separator :: char where "separator = CHR ''/''"

section \<open>PathEngine: \<open>pathFromName\<close>\<close>

text \<open>
  \<open>pathFromName\<close> splits the name at the separator and writes the marker \<open><empty>\<close> over
  an empty first and an empty last segment. The two index expressions are in range
  because \<open>Split\<close> never returns the empty slice.
\<close>

definition pathFromName :: "string \<Rightarrow> string list" where
  "pathFromName objectName =
     (let path = Split separator objectName;
          path = (if path ! 0 = [] then path[0 := emptyFileName] else path);
          path = (if path ! (length path - 1) = []
                  then path[length path - 1 := emptyFileName] else path)
      in path)"

text \<open>
  The way back, as the tree client reads names: \<open>TreeNode.FileName\<close> turns the marker
  into the empty string, and \<open>formFilePath\<close> chains the segments with the separator.
\<close>

definition FileName_of_segment :: "string \<Rightarrow> string" where
  "FileName_of_segment v = (if v = emptyFileName then [] else v)"

definition nameFromPath :: "string list \<Rightarrow> string" where
  "nameFromPath path = Join separator (map FileName_of_segment path)"

section \<open>Errors\<close>

text \<open>
  Go error values. \<open>ErrNodeNotFound\<close> and \<open>ErrNoNodeToRemove\<close> are the two sentinels of
  package layer; \<open>ErrNew\<close> is an error made from a message alone (\<open>errors.New\<close>,
  \<open>fmt.Errorf\<close> without \<open>%w\<close>, an error of a library); \<open>ErrWrap p e\<close> is
  \<open>fmt.Errorf(p + "%w", e)\<close>; \<open>Panic\<close> is a run-time panic.
\<close>

datatype error =
    ErrNodeNotFound
  | ErrNoNodeToRemove
  | ErrNew string
  | ErrWrap string error
  | Panic string

text \<open>\<open>errors.Is\<close>: the target is met anywhere along the chain of wrapped errors.\<close>

fun errors_Is :: "error \<Rightarrow> error \<Rightarrow> bool" where
  "errors_Is (ErrWrap p e) target = (ErrWrap p e = target \<or> errors_Is e target)"
| "errors_Is e target = (e = target)"

text \<open>
  \<open>err.Error()\<close>. The two sentinels are declared in package layer, which is not among
  the sources, so their messages are the parameters \<open>nf\<close> and \<open>nr\<close>.
\<close>

fun Error :: "string \<Rightarrow> string \<Rightarrow> error \<Rightarrow> string" where
  "Error nf nr ErrNodeNotFound = nf"
| "Error nf nr ErrNoNodeToRemove = nr"
| "Error nf nr (ErrNew m) = m"
| "Error nf nr (ErrWrap p e) = p @ Error nf nr e"
| "Error nf nr (Panic m) = m"

section \<open>Decimal numbers: \<open>strconv\<close>\<close>

type_synonym int64 = "64 word"

definition digit_char :: "nat \<Rightarrow> char" where
  "digit_char d = ''0123456789'' ! d"

definition is_digit :: "char \<Rightarrow> bool" where
  "is_digit c = (48 \<le> (of_char c :: int) \<and> (of_char c :: int) \<le> 57)"

definition digit_val :: "char \<Rightarrow> int" where
  "digit_val c = of_char c - 48"

function FormatUint :: "nat \<Rightarrow> string" where
  "FormatUint n = (if n < 10 then [digit_char n]
                   else FormatUint (n div 10) @ [digit_char (n mod 10)])"
  by pat_completeness auto
termination
  by (relation "measure id") auto

declare FormatUint.simps [simp del]

text \<open>\<open>strconv.FormatInt(i, 10)\<close>, which is also what \<open>%d\<close> and \<open>strconv.Itoa\<close> print.\<close>

definition FormatInt :: "int64 \<Rightarrow> string" where
  "FormatInt i = (if sint i < 0 then CHR ''-'' # FormatUint (nat (- sint i))
                  else FormatUint (nat (sint i)))"

text \<open>The digits of \<open>strconv.ParseUint\<close> in base 10: at least one, and nothing else.\<close>

definition parse_digits :: "string \<Rightarrow> int option" where
  "parse_digits s =
     (if s = [] \<or> \<not> list_all is_digit s then None
      else Some (foldl (\<lambda>a c. 10 * a + digit_val c) 0 s))"

text \<open>
  \<open>strconv.ParseInt(s, 10, 64)\<close>: an optional sign, the digits, and the range check of a
  64-bit signed integer.
\<close>

definition ParseInt :: "string \<Rightarrow> error + int64" where
  "ParseInt s =
     (if s = [] then Inl (ErrNew (''strconv.ParseInt: parsing \"\": invalid syntax''))
      else
        let neg = (hd s = CHR ''-'');
            ds = (if hd s = CHR ''+'' \<or> hd s = CHR ''-'' then tl s else s)
        in case parse_digits ds of
             None \<Rightarrow> Inl (ErrNew (''strconv.ParseInt: parsing \"'' @ s @ ''\": invalid syntax''))
           | Some un \<Rightarrow>
               if \<not> neg \<and> un \<ge> 2 ^ 63
               then Inl (ErrNew (''strconv.ParseInt: parsing \"'' @ s @ ''\": value out of range''))
               else if neg \<and> un > 2 ^ 63
               then Inl (ErrNew (''strconv.ParseInt: parsing \"'' @ s @ ''\": value out of range''))
               else Inr (word_of_int (if neg then - un else un)))"

text \<open>
  \<open>strconv.Atoi(s)\<close> where \<open>int\<close> has 64 bits: the strings and values of
  \<open>ParseInt(s, 10, 64)\<close>, with its own name in the text of the error.
\<close>

definition Atoi :: "string \<Rightarrow> error + int64" where
  "Atoi s =
     (if s = [] then Inl (ErrNew (''strconv.Atoi: parsing \"\": invalid syntax''))
      else
        let neg = (hd s = CHR ''-'');
            ds = (if hd s = CHR ''+'' \<or> hd s = CHR ''-'' then tl s else s)
        in case parse_digits ds of
             None \<Rightarrow> Inl (ErrNew (''strconv.Atoi: parsing \"'' @ s @ ''\": invalid syntax''))
           | Some un \<Rightarrow>
               if \<not> neg \<and> un \<ge> 2 ^ 63
               then Inl (ErrNew (''strconv.Atoi: parsing \"'' @ s @ ''\": value out of range''))
               else if neg \<and> un > 2 ^ 63
               then Inl (ErrNew (''strconv.Atoi: parsing \"'' @ s @ ''\": value out of range''))
               else Inr (word_of_int (if neg then - un else un)))"

section \<open>What the SDK provides\<close>

text \<open>
  Object ids and user ids come from the NeoFS SDK, with their text codecs. The codecs are
  parameters of the model; an id itself is a number, and the zero value of the Go type is
  \<open>0\<close>. The record also carries the messages of the two sentinels of package layer.
\<close>

type_synonym oid = nat
type_synonym user_id = nat

record sdk =
  oid_EncodeToString :: "oid \<Rightarrow> string"
  oid_DecodeString :: "string \<Rightarrow> error + oid"
  user_EncodeToString :: "user_id \<Rightarrow> string"
  user_DecodeString :: "string \<Rightarrow> error + user_id"
  ErrNodeNotFound_text :: string
  ErrNoNodeToRemove_text :: string

definition err_Error :: "sdk \<Rightarrow> error \<Rightarrow> string" where
  "err_Error E e = Error (ErrNodeNotFound_text E) (ErrNoNodeToRemove_text E) e"

section \<open>NodeCodec: the lock configuration\<close>

text \<open>
  Modelled from the spec: the types \<open>ObjectLockConfiguration\<close>, \<open>ObjectLockRule\<close> and
  \<open>DefaultRetention\<close> are declared in api/data, which is not among the sources. Their
  fields are the four values of the serialized form, as the two functions below read and
  write them; the rule and its default retention are pointers, here options.
\<close>

record DefaultRetention =
  Days :: int64
  Mode :: string
  Years :: int64

record ObjectLockRule =
  DefaultRetention :: "DefaultRetention option"

record ObjectLockConfiguration =
  ObjectLockEnabled :: string
  Rule :: "ObjectLockRule option"

definition parseLockConfiguration :: "string \<Rightarrow> error + ObjectLockConfiguration" where
  "parseLockConfiguration val =
     (let result = \<lparr>ObjectLockEnabled = [], Rule = None\<rparr> in
      if length val = 0 then Inr result
      else
        let lockValues = Split (CHR '','') val;
            result = result\<lparr>ObjectLockEnabled := lockValues ! 0\<rparr>
        in if length lockValues = 1 then Inr result
           else if length lockValues \<noteq> 4
           then Inl (ErrNew (''invalid lock configuration: '' @ val))
           else
             case (if length (lockValues ! 1) > 0 then ParseInt (lockValues ! 1) else Inr 0) of
               Inl err \<Rightarrow> Inl (ErrNew (''invalid lock configuration: '' @ val))
             | Inr days \<Rightarrow>
                 (case (if length (lockValues ! 3) > 0 then ParseInt (lockValues ! 3) else Inr 0) of
                    Inl err \<Rightarrow> Inl (ErrNew (''invalid lock configuration: '' @ val))
                  | Inr years \<Rightarrow>
                      Inr (result\<lparr>Rule := Some \<lparr>DefaultRetention =
                             Some \<lparr>Days = days, Mode = lockValues ! 2, Years = years\<rparr>\<rparr>\<rparr>)))"

text \<open>The argument is a pointer in the source: \<open>None\<close> is the nil configuration.\<close>

definition encodeLockConfiguration :: "ObjectLockConfiguration option \<Rightarrow> string" where
  "encodeLockConfiguration conf =
     (case conf of
        None \<Rightarrow> []
      | Some c \<Rightarrow>
          (case Rule c of
             None \<Rightarrow> ObjectLockEnabled c
           | Some r \<Rightarrow>
               (case DefaultRetention r of
                  None \<Rightarrow> ObjectLockEnabled c
                | Some defaults \<Rightarrow>
                    ObjectLockEnabled c @ '','' @ FormatInt (Days defaults) @ '','' @
                    Mode defaults @ '','' @ FormatInt (Years defaults))))"

text \<open>
  A configuration that the comma-joined form can carry: no comma inside the two text
  fields, and a rule, where there is one, holds its default retention.
\<close>

definition wellformed_lock_configuration :: "ObjectLockConfiguration \<Rightarrow> bool" where
  "wellformed_lock_configuration c =
     (CHR '','' \<notin> set (ObjectLockEnabled c) \<and>
      (case Rule c of
         None \<Rightarrow> True
       | Some r \<Rightarrow> (case DefaultRetention r of
                      None \<Rightarrow> False
                    | Some d \<Rightarrow> CHR '','' \<notin> set (Mode d))))"

section \<open>Tree nodes as the service returns them\<close>

text \<open>
  A node of a response (\<open>NodeResponse\<close>, \<open>GetSubTreeResponse_Body\<close>): the fields are named
  after the getters the client calls. The metadata is the list of key-value pairs of the
  wire format.
\<close>

record node =
  GetNodeId :: nat
  GetParentId :: nat
  GetTimestamp :: nat
  GetMeta :: "(string \<times> string) list"

record TreeNode =
  ID :: nat
  ObjID :: oid
  TimeStamp :: nat
  Size :: int64
  Meta :: "string \<rightharpoonup> string"

text \<open>The loop of \<open>newTreeNode\<close> over the metadata; it returns at the first failure.\<close>

fun newTreeNode_loop :: "sdk \<Rightarrow> (string \<times> string) list \<Rightarrow> TreeNode \<Rightarrow> error + TreeNode" where
  "newTreeNode_loop E [] treeNode = Inr treeNode"
| "newTreeNode_loop E ((k, v) # kvs) treeNode =
     (if k = oidKV then
        (case oid_DecodeString E v of
           Inl err \<Rightarrow> Inl err
         | Inr objID \<Rightarrow> newTreeNode_loop E kvs (treeNode\<lparr>ObjID := objID\<rparr>))
      else if k = sizeKV then
        (if length v > 0 then
           (case ParseInt v of
              Inl err \<Rightarrow> Inl (ErrWrap (''invalid size value '' @ [CHR 0x27] @ v @ [CHR 0x27] @ '': '') err)
            | Inr sz \<Rightarrow> newTreeNode_loop E kvs (treeNode\<lparr>Size := sz\<rparr>))
         else newTreeNode_loop E kvs treeNode)
      else newTreeNode_loop E kvs (treeNode\<lparr>Meta := (Meta treeNode)(k \<mapsto> v)\<rparr>))"

definition newTreeNode :: "sdk \<Rightarrow> node \<Rightarrow> error + TreeNode" where
  "newTreeNode E nodeInfo =
     newTreeNode_loop E (GetMeta nodeInfo)
       \<lparr>ID = GetNodeId nodeInfo, ObjID = 0, TimeStamp = GetTimestamp nodeInfo, Size = 0,
        Meta = Map.empty\<rparr>"

definition Get :: "TreeNode \<Rightarrow> string \<Rightarrow> string \<times> bool" where
  "Get n key = (case Meta n key of None \<Rightarrow> ([], False) | Some v \<Rightarrow> (v, True))"

definition FileName :: "TreeNode \<Rightarrow> string \<times> bool" where
  "FileName n =
     (let (v, ok) = Get n fileNameKV
      in if ok \<and> v = emptyFileName then ([], ok) else (v, ok))"

section \<open>Versions, delete markers, parts\<close>

text \<open>
  A \<open>time.Time\<close> is kept as its \<open>UnixMilli\<close> value; the zero \<open>time.Time\<close> is the first
  instant of year 1.
\<close>

definition zero_time :: int64 where
  "zero_time = - 62135596800000"

record DeleteMarkerInfo =
  Created :: int64
  Owner :: user_id

text \<open>
  \<open>NodeVersion\<close> with the fields of the embedded \<open>BaseNodeVersion\<close>. The fields \<open>ID\<close>
  and \<open>Size\<close> carry the prefix \<open>nv\<close>, and the fields of \<open>PartInfo\<close> below that share a
  name with these carry the prefix \<open>part\<close>.
\<close>

record NodeVersion =
  nv_ID :: nat
  OID :: oid
  Timestamp :: nat
  nv_Size :: int64
  ETag :: string
  FilePath :: string
  DeleteMarker :: "DeleteMarkerInfo option"
  IsUnversioned :: bool

definition newNodeVersionFromTreeNode :: "sdk \<Rightarrow> string \<Rightarrow> TreeNode \<Rightarrow> NodeVersion" where
  "newNodeVersionFromTreeNode E filePath treeNode =
     (let isUnversioned = snd (Get treeNode isUnversionedKV);
          isDeleteMarker = snd (Get treeNode isDeleteMarkerKV);
          eTag = fst (Get treeNode etagKV);
          version = \<lparr>nv_ID = ID treeNode, OID = ObjID treeNode, Timestamp = TimeStamp treeNode,
                     nv_Size = Size treeNode, ETag = eTag, FilePath = filePath,
                     DeleteMarker = None, IsUnversioned = isUnversioned\<rparr>
      in if isDeleteMarker then
           let created = (case Get treeNode createdKV of
                            (createdStr, True) \<Rightarrow>
                              (case ParseInt createdStr of
                                 Inr utcMilli \<Rightarrow> utcMilli
                               | Inl err \<Rightarrow> zero_time)
                          | (createdStr, False) \<Rightarrow> zero_time);
               owner = (case Get treeNode ownerKV of
                          (ownerStr, True) \<Rightarrow>
                            (case user_DecodeString E ownerStr of
                               Inr u \<Rightarrow> u
                             | Inl err \<Rightarrow> 0)
                        | (ownerStr, False) \<Rightarrow> 0)
           in version\<lparr>DeleteMarker := Some \<lparr>Created = created, Owner = owner\<rparr>\<rparr>
         else version)"

definition newNodeVersion :: "sdk \<Rightarrow> string \<Rightarrow> node \<Rightarrow> error + NodeVersion" where
  "newNodeVersion E filePath nd =
     (case newTreeNode E nd of
        Inl err \<Rightarrow> Inl (ErrWrap ''invalid tree node: '' err)
      | Inr treeNode \<Rightarrow> Inr (newNodeVersionFromTreeNode E filePath treeNode))"

record PartInfo =
  Key :: string
  UploadID :: string
  Number :: int64
  part_OID :: oid
  part_Size :: int64
  part_ETag :: string
  part_Created :: int64

fun newPartInfo_loop :: "sdk \<Rightarrow> (string \<times> string) list \<Rightarrow> PartInfo \<Rightarrow> error + PartInfo" where
  "newPartInfo_loop E [] partInfo = Inr partInfo"
| "newPartInfo_loop E ((k, v) # kvs) partInfo =
     (if k = partNumberKV then
        (case Atoi v of
           Inl err \<Rightarrow> Inl (ErrWrap ''invalid part number: '' err)
         | Inr n \<Rightarrow> newPartInfo_loop E kvs (partInfo\<lparr>Number := n\<rparr>))
      else if k = oidKV then
        (case oid_DecodeString E v of
           Inl err \<Rightarrow> Inl (ErrWrap ''invalid oid: '' err)
         | Inr objID \<Rightarrow> newPartInfo_loop E kvs (partInfo\<lparr>part_OID := objID\<rparr>))
      else if k = etagKV then newPartInfo_loop E kvs (partInfo\<lparr>part_ETag := v\<rparr>)
      else if k = sizeKV then
        (case ParseInt v of
           Inl err \<Rightarrow> Inl (ErrWrap ''invalid part size: '' err)
         | Inr sz \<Rightarrow> newPartInfo_loop E kvs (partInfo\<lparr>part_Size := sz\<rparr>))
      else if k = createdKV then
        (case ParseInt v of
           Inl err \<Rightarrow> Inl (ErrWrap ''invalid created timestamp: '' err)
         | Inr utcMilli \<Rightarrow> newPartInfo_loop E kvs (partInfo\<lparr>part_Created := utcMilli\<rparr>))
      else newPartInfo_loop E kvs partInfo)"

definition newPartInfo :: "sdk \<Rightarrow> node \<Rightarrow> error + PartInfo" where
  "newPartInfo E nd =
     (case newPartInfo_loop E (GetMeta nd)
             \<lparr>Key = [], UploadID = [], Number = 0, part_OID = 0, part_Size = 0,
              part_ETag = [], part_Created = zero_time\<rparr> of
        Inl err \<Rightarrow> Inl err
      | Inr partInfo \<Rightarrow>
          if sint (Number partInfo) \<le> 0 then Inl (ErrNew (''it'' @ [CHR 0x27] @ ''s not a part node''))
          else Inr partInfo)"

section \<open>TreeGateway: one call of the tree service\<close>

text \<open>
  The outcome of one call: signing the request failed, the service answered with an
  error (its message), or it answered with a value. In \<open>getNodesParams\<close> the field
  \<open>Meta\<close> of the source, the attributes to return, has the name it has in the request,
  \<open>Attributes\<close>.
\<close>

datatype 'a rpc = SignError error | RpcError string | RpcOk 'a

record getNodesParams =
  Path :: "string list"
  Attributes :: "string list"
  LatestOnly :: bool
  AllAttrs :: bool

text \<open>
  The service is an argument of the client functions that only read: \<open>service p\<close> is
  what \<open>c.service.GetNodeByPath\<close> answers to the signed request built from \<open>p\<close>. The
  container and tree identifiers are left out: all calls of one operation address the same
  tree, and that tree is the state.
\<close>

definition getNodes :: "(getNodesParams \<Rightarrow> node list rpc) \<Rightarrow> getNodesParams \<Rightarrow> error + node list" where
  "getNodes service p =
     (case service p of
        SignError err \<Rightarrow> Inl err
      | RpcError msg \<Rightarrow>
          if Contains msg ''not found'' then Inl ErrNodeNotFound
          else Inl (ErrWrap ''failed to get node path: '' (ErrNew msg))
      | RpcOk nodes \<Rightarrow> Inr nodes)"

text \<open>
  A subtree arrives as a stream: the bodies received, and the message of the error that
  ended the stream, if it was not the end of file.
\<close>

definition getSubTree ::
  "(nat \<Rightarrow> nat \<Rightarrow> (node list \<times> string option) rpc) \<Rightarrow> nat \<Rightarrow> nat \<Rightarrow> error + node list" where
  "getSubTree service rootID depth =
     (case service rootID depth of
        SignError err \<Rightarrow> Inl err
      | RpcError msg \<Rightarrow>
          if Contains msg ''not found'' then Inl ErrNodeNotFound
          else Inl (ErrWrap ''failed to get sub tree client: '' (ErrNew msg))
      | RpcOk (subtree, None) \<Rightarrow> Inr subtree
      | RpcOk (subtree, Some msg) \<Rightarrow>
          if Contains msg ''not found'' then Inl ErrNodeNotFound
          else Inl (ErrWrap ''failed to get sub tree: '' (ErrNew msg)))"

text \<open>\<open>subTree[0]\<close> panics on an empty answer.\<close>

definition getParent ::
  "(nat \<Rightarrow> nat \<Rightarrow> (node list \<times> string option) rpc) \<Rightarrow> nat \<Rightarrow> error + nat" where
  "getParent service nodeID =
     (case getSubTree service nodeID 0 of
        Inl err \<Rightarrow> Inl err
      | Inr subTree \<Rightarrow>
          (case subTree of
             [] \<Rightarrow> Inl (Panic ''index out of range [0] with length 0'')
           | n # ns \<Rightarrow> Inr (GetParentId n)))"

section \<open>VersionStore: listing the versions at a path\<close>

fun getVersions_loop :: "sdk \<Rightarrow> string \<Rightarrow> bool \<Rightarrow> node list \<Rightarrow> error + NodeVersion list" where
  "getVersions_loop E filepath onlyUnversioned [] = Inr []"
| "getVersions_loop E filepath onlyUnversioned (nd # nds) =
     (case newNodeVersion E filepath nd of
        Inl err \<Rightarrow> Inl err
      | Inr nodeVersion \<Rightarrow>
          (case getVersions_loop E filepath onlyUnversioned nds of
             Inl err \<Rightarrow> Inl err
           | Inr result \<Rightarrow>
               if onlyUnversioned \<and> \<not> IsUnversioned nodeVersion then Inr result
               else Inr (nodeVersion # result)))"

definition getVersions ::
  "sdk \<Rightarrow> (getNodesParams \<Rightarrow> node list rpc) \<Rightarrow> string \<Rightarrow> bool \<Rightarrow> error + NodeVersion list" where
  "getVersions E service filepath onlyUnversioned =
     (let keysToReturn = [oidKV, isUnversionedKV, isDeleteMarkerKV, etagKV, sizeKV];
          path = pathFromName filepath;
          p = \<lparr>Path = path, Attributes = keysToReturn, LatestOnly = False, AllAttrs = False\<rparr>
      in case getNodes service p of
           Inl err \<Rightarrow>
             if Contains (err_Error E err) ''not found'' then Inr []
             else Inl (ErrWrap (''couldn'' @ [CHR 0x27] @ ''t get nodes: '') err)
         | Inr nodes \<Rightarrow> getVersions_loop E filepath onlyUnversioned nodes)"

definition GetVersions ::
  "sdk \<Rightarrow> (getNodesParams \<Rightarrow> node list rpc) \<Rightarrow> string \<Rightarrow> error + NodeVersion list" where
  "GetVersions E service filepath = getVersions E service filepath False"

definition getUnversioned ::
  "sdk \<Rightarrow> (getNodesParams \<Rightarrow> node list rpc) \<Rightarrow> string \<Rightarrow> error + NodeVersion" where
  "getUnversioned E service filepath =
     (case getVersions E service filepath True of
        Inl err \<Rightarrow> Inl err
      | Inr nodes \<Rightarrow>
          if length nodes > 1 then Inl (ErrNew ''found more than one unversioned node'')
          else if length nodes \<noteq> 1 then Inl ErrNodeNotFound
          else Inr (nodes ! 0))"

section \<open>An instance of the parameters\<close>

text \<open>
  Where a statement is evaluated at a concrete input, ids are written in decimal, and the
  sentinels carry the messages \<open>not found\<close> and \<open>no node to remove\<close>.
\<close>

definition decimal_DecodeString :: "string \<Rightarrow> error + nat" where
  "decimal_DecodeString s =
     (case parse_digits s of
        None \<Rightarrow> Inl (ErrNew ''invalid id'')
      | Some i \<Rightarrow> Inr (nat i))"

definition decimal_sdk :: sdk where
  "decimal_sdk =
     \<lparr>oid_EncodeToString = FormatUint, oid_DecodeString = decimal_DecodeString,
      user_EncodeToString = FormatUint, user_DecodeString = decimal_DecodeString,
      ErrNodeNotFound_text = ''not found'', ErrNoNodeToRemove_text = ''no node to remove''\<rparr>"

section \<open>ListingEngine: \<open>ListObjectVersions\<close>\<close>

text \<open>
  Modelled from the spec: \<open>ObjectInfo\<close> is declared in api/data, and the parameters and
  the result of the listing in package layer; neither is among the sources. The listing
  reads the name of an object, the text of its version (the method \<open>Version()\<close>) and
  whether it is a delete marker: these are the fields of \<open>ObjectInfo\<close>. The other
  records have the fields that \<open>ListObjectVersions\<close> reads and writes.
\<close>

record ObjectInfo =
  Name :: string
  VersionID :: string
  IsDeleteMarker :: bool

record ExtendedObjectInfo =
  ObjectInfo :: ObjectInfo
  NodeVersion :: NodeVersion
  IsLatest :: bool

record ObjectVersionInfo =
  Object :: ObjectInfo
  ovi_IsUnversioned :: bool
  ovi_IsLatest :: bool

record ListObjectVersionsParams =
  Prefix :: string
  Delimiter :: string
  p_KeyMarker :: string
  p_VersionIDMarker :: string
  MaxKeys :: int


text \<open>
  The Go map from names to versions is an association list in which the first binding of
  a name counts; \<open>map_keys\<close> are its keys, each once.
\<close>

type_synonym versions_map = "(string \<times> ExtendedObjectInfo list) list"

definition map_keys :: "versions_map \<Rightarrow> string list" where
  "map_keys versions = remdups (map fst versions)"

definition map_index :: "versions_map \<Rightarrow> string \<Rightarrow> ExtendedObjectInfo list" where
  "map_index versions name = (case map_of versions name of None \<Rightarrow> [] | Some vs \<Rightarrow> vs)"

text \<open>
  \<open>sort.Slice\<close> is not stable, so the sorting function is a parameter: any function
  that returns a permutation of its argument in which no element has a smaller timestamp
  than a later one (the \<open>less\<close> function of the source puts the greater timestamp first).
\<close>

definition timestamp :: "ExtendedObjectInfo \<Rightarrow> nat" where
  "timestamp v = Timestamp (NodeVersion v)"


text \<open>One such function: insertion sort, which keeps the order of equal timestamps.\<close>

fun insert_newest_first :: "ExtendedObjectInfo \<Rightarrow> ExtendedObjectInfo list \<Rightarrow> ExtendedObjectInfo list" where
  "insert_newest_first v [] = [v]"
| "insert_newest_first v (w # ws) =
     (if timestamp w < timestamp v then v # w # ws else w # insert_newest_first v ws)"

definition insertion_sortSlice :: "ExtendedObjectInfo list \<Rightarrow> ExtendedObjectInfo list" where
  "insertion_sortSlice xs = foldr insert_newest_first xs []"

text \<open>The inner loop: \<open>version.IsLatest = i == 0\<close> for the version at index \<open>i\<close>.\<close>

definition mark_latest :: "ExtendedObjectInfo list \<Rightarrow> ExtendedObjectInfo list" where
  "mark_latest sortedVersions =
     map (\<lambda>(i, version). version\<lparr>IsLatest := (i = (0::nat))\<rparr>) (enumerate 0 sortedVersions)"

text \<open>Steps 1 to 3: the names in ascending order, each with its versions newest first.\<close>

definition sorted_objects ::
  "(ExtendedObjectInfo list \<Rightarrow> ExtendedObjectInfo list) \<Rightarrow> versions_map \<Rightarrow> ExtendedObjectInfo list" where
  "sorted_objects sortSlice versions =
     (let sortedNames = sort (map_keys versions)
      in concat (map (\<lambda>name. mark_latest (sortSlice (map_index versions name))) sortedNames))"

text \<open>
  Step 4, the cursor. The loop stops at the first object that is at or after both
  markers and keeps the slice from there; when it ends without finding one, the slice is
  what it was.
\<close>

fun find_cursor :: "string \<Rightarrow> string \<Rightarrow> ExtendedObjectInfo list \<Rightarrow> nat option" where
  "find_cursor keyMarker versionIDMarker [] = None"
| "find_cursor keyMarker versionIDMarker (obj # objs) =
     (if Name (ObjectInfo obj) \<ge> keyMarker \<and> VersionID (ObjectInfo obj) \<ge> versionIDMarker
      then Some 0
      else map_option Suc (find_cursor keyMarker versionIDMarker objs))"

definition advance_cursor :: "string \<Rightarrow> string \<Rightarrow> ExtendedObjectInfo list \<Rightarrow> ExtendedObjectInfo list" where
  "advance_cursor keyMarker versionIDMarker allObjects =
     (case find_cursor keyMarker versionIDMarker allObjects of
        Some i \<Rightarrow> drop i allObjects
      | None \<Rightarrow> allObjects)"

text \<open>
  Modelled from the spec: \<open>triageExtendedObjects\<close> is declared in package layer and is not
  among the sources. Every version whose key, after the prefix, contains the delimiter
  goes to the common prefixes, with the portion of the key up to and including the first
  delimiter; every other version stays in the flat list, in order. The call passes the
  objects alone, so the portion that stands for a version, if any, is read off the
  version: it is the parameter \<open>commonPrefix\<close>.
\<close>

definition triageExtendedObjects ::
  "(ExtendedObjectInfo \<Rightarrow> string option) \<Rightarrow> ExtendedObjectInfo list \<Rightarrow>
   string list \<times> ExtendedObjectInfo list" where
  "triageExtendedObjects commonPrefix allObjects =
     (List.map_filter commonPrefix allObjects,
      filter (\<lambda>ov. commonPrefix ov = None) allObjects)"

text \<open>What is left for step 6: the flat list after the cursor and the delimiter.\<close>

definition remaining_objects ::
  "(ExtendedObjectInfo list \<Rightarrow> ExtendedObjectInfo list) \<Rightarrow> (ExtendedObjectInfo \<Rightarrow> string option) \<Rightarrow>
   versions_map \<Rightarrow> ListObjectVersionsParams \<Rightarrow> ExtendedObjectInfo list" where
  "remaining_objects sortSlice commonPrefix versions p =
     snd (triageExtendedObjects commonPrefix
            (advance_cursor (p_KeyMarker p) (p_VersionIDMarker p)
               (sorted_objects sortSlice versions)))"

text \<open>Go's \<open>xs[i]\<close> and \<open>xs[:n]\<close> with their run-time checks.\<close>

definition index :: "'a list \<Rightarrow> int \<Rightarrow> error + 'a" where
  "index xs i =
     (if 0 \<le> i \<and> i < int (length xs) then Inr (xs ! nat i)
      else Inl (Panic ''index out of range''))"



definition to_ObjectVersionInfo :: "ExtendedObjectInfo \<Rightarrow> ObjectVersionInfo" where
  "to_ObjectVersionInfo obj =
     \<lparr>Object = ObjectInfo obj, ovi_IsUnversioned = IsUnversioned (NodeVersion obj),
      ovi_IsLatest = IsLatest obj\<rparr>"





section \<open>Objects for evaluation\<close>

text \<open>A version of the object \<open>name\<close> with the version text \<open>vid\<close> and the timestamp \<open>ts\<close>.\<close>

definition a_version :: "string \<Rightarrow> string \<Rightarrow> nat \<Rightarrow> ExtendedObjectInfo" where
  "a_version name vid ts =
     \<lparr>ObjectInfo = \<lparr>Name = name, VersionID = vid, IsDeleteMarker = False\<rparr>,
      NodeVersion = \<lparr>nv_ID = ts, OID = ts, Timestamp = ts, nv_Size = 0, ETag = [],
                     FilePath = name, DeleteMarker = None, IsUnversioned = False\<rparr>,
      IsLatest = False\<rparr>"

definition listing_params :: "string \<Rightarrow> string \<Rightarrow> int \<Rightarrow> ListObjectVersionsParams" where
  "listing_params keyMarker versionIDMarker maxKeys =
     \<lparr>Prefix = [], Delimiter = [], p_KeyMarker = keyMarker,
      p_VersionIDMarker = versionIDMarker, MaxKeys = maxKeys\<rparr>"



section \<open>The tree service\<close>

text \<open>
  Modelled from the spec: the tree service is the collaborator behind \<open>c.service\<close> and is
  not part of the repository. Section 6 of the specification gives its calls: \<open>Add\<close>
  returns the id of the new node; \<open>AddByPath\<close> creates or reuses the intermediate nodes
  of the path and adds the node below them; \<open>Move\<close> replaces the parent and the whole
  metadata of a node and keeps its id; \<open>GetNodeByPath\<close> returns the nodes at a path, the
  path being read along the attribute \<open>FileName\<close>; \<open>GetSubTree\<close> streams a node and
  its descendants down to a depth, a parent before its children, depth 0 being the node
  alone. The state is one tree: its nodes in the order of their creation, the next free
  id and a clock for the timestamps. The root of the tree has the id 0 and is not stored.
\<close>

record tree =
  nodes :: "node list"
  next_id :: nat
  clock :: nat

text \<open>Modelled from the spec: \<open>Add\<close> appends a node with a fresh id below \<open>parent\<close>.\<close>

definition service_Add :: "tree \<Rightarrow> nat \<Rightarrow> (string \<times> string) list \<Rightarrow> nat rpc \<times> tree" where
  "service_Add t parent meta =
     (RpcOk (next_id t),
      t\<lparr>nodes := nodes t @ [\<lparr>GetNodeId = next_id t, GetParentId = parent,
                              GetTimestamp = clock t, GetMeta = meta\<rparr>],
        next_id := Suc (next_id t), clock := Suc (clock t)\<rparr>)"

text \<open>
  Modelled from the spec: \<open>Move\<close> gives the node a parent and new metadata, which
  replace the old ones, and fails on a node that does not exist.
\<close>

definition service_Move ::
  "tree \<Rightarrow> nat \<Rightarrow> nat \<Rightarrow> (string \<times> string) list \<Rightarrow> unit rpc \<times> tree" where
  "service_Move t nodeID parent meta =
     (if list_ex (\<lambda>n. GetNodeId n = nodeID) (nodes t) then
        (RpcOk (),
         t\<lparr>nodes := map (\<lambda>n. if GetNodeId n = nodeID
                               then n\<lparr>GetParentId := parent, GetTimestamp := clock t,
                                      GetMeta := meta\<rparr>
                               else n) (nodes t),
           clock := Suc (clock t)\<rparr>)
      else (RpcError ''node not found'', t))"

text \<open>
  Modelled from the spec: the value of the path attribute of a node, which is always the
  key \<open>FileName\<close>.
\<close>

definition path_attribute :: "node \<Rightarrow> string option" where
  "path_attribute n = map_of (GetMeta n) fileNameKV"

text \<open>
  Modelled from the spec: \<open>on_path ns i up\<close> says that the node with the id \<open>i\<close> lies at
  the path whose segments, from the last one up to the first, are \<open>up\<close>; the empty path
  is the root.
\<close>

fun on_path :: "node list \<Rightarrow> nat \<Rightarrow> string list \<Rightarrow> bool" where
  "on_path ns i [] = (i = 0)"
| "on_path ns i (seg # up) =
     list_ex (\<lambda>n. GetNodeId n = i \<and> path_attribute n = Some seg \<and>
                   on_path ns (GetParentId n) up) ns"

text \<open>
  Modelled from the spec: a node is returned with the attributes asked for, or with all
  of them; with \<open>latestOnly\<close>, only the node with the greatest timestamp is returned.
\<close>

definition project_attributes :: "getNodesParams \<Rightarrow> node \<Rightarrow> node" where
  "project_attributes p n =
     (if AllAttrs p then n
      else n\<lparr>GetMeta := filter (\<lambda>kv. fst kv \<in> set (Attributes p)) (GetMeta n)\<rparr>)"

fun latest_node :: "node list \<Rightarrow> node list" where
  "latest_node [] = []"
| "latest_node (n # ns) =
     (case latest_node ns of
        [] \<Rightarrow> [n]
      | m # ms \<Rightarrow> if GetTimestamp m > GetTimestamp n then [m] else [n])"

text \<open>
  Modelled from the spec: \<open>GetNodeByPath\<close> returns the nodes at the path, in the order of
  their creation; \<open>nodes_at\<close> takes the path from its last segment up.
\<close>

definition nodes_at :: "tree \<Rightarrow> string list \<Rightarrow> node list" where
  "nodes_at t up = filter (\<lambda>n. on_path (nodes t) (GetNodeId n) up) (nodes t)"

definition service_GetNodeByPath :: "tree \<Rightarrow> getNodesParams \<Rightarrow> node list rpc" where
  "service_GetNodeByPath t p =
     (let found = map (project_attributes p) (nodes_at t (rev (Path p)))
      in RpcOk (if LatestOnly p then latest_node found else found))"

text \<open>
  A tree as the service keeps it: the ids of the nodes differ from each other and from
  the id of the root, and the ids of nodes and parents are ids that were given out.
\<close>

definition wf_tree :: "tree \<Rightarrow> bool" where
  "wf_tree t =
     (distinct (map GetNodeId (nodes t)) \<and> 0 < next_id t \<and>
      (\<forall>n \<in> set (nodes t).
          0 < GetNodeId n \<and> GetNodeId n < next_id t \<and> GetParentId n < next_id t))"

text \<open>
  Modelled from the spec: \<open>AddByPath\<close> walks down the path from the root, reuses the first
  child that has the segment as its \<open>FileName\<close> or creates an intermediate node that
  holds this attribute alone, and adds the new node below the last one.
\<close>

fun ensure_path :: "tree \<Rightarrow> nat \<Rightarrow> string list \<Rightarrow> tree \<times> nat" where
  "ensure_path t parent [] = (t, parent)"
| "ensure_path t parent (seg # rest) =
     (case find (\<lambda>n. GetParentId n = parent \<and> path_attribute n = Some seg) (nodes t) of
        Some n \<Rightarrow> ensure_path t (GetNodeId n) rest
      | None \<Rightarrow>
          ensure_path (snd (service_Add t parent [(fileNameKV, seg)])) (next_id t) rest)"

definition service_AddByPath ::
  "tree \<Rightarrow> string list \<Rightarrow> (string \<times> string) list \<Rightarrow> unit rpc \<times> tree" where
  "service_AddByPath t path meta =
     (let (t', parent) = ensure_path t 0 path
      in (RpcOk (), snd (service_Add t' parent meta)))"

text \<open>
  Modelled from the spec: \<open>GetSubTree\<close> answers with the node \<open>rootID\<close>, then its
  children, then theirs, down to the depth; a node that does not exist is \<open>not found\<close>.
\<close>

fun subtree_levels :: "node list \<Rightarrow> node list \<Rightarrow> nat \<Rightarrow> node list" where
  "subtree_levels ns level 0 = level"
| "subtree_levels ns level (Suc depth) =
     level @ subtree_levels ns
               (filter (\<lambda>n. list_ex (\<lambda>m. GetNodeId m = GetParentId n) level) ns) depth"

definition service_GetSubTree ::
  "tree \<Rightarrow> nat \<Rightarrow> nat \<Rightarrow> (node list \<times> string option) rpc" where
  "service_GetSubTree t rootID depth =
     (if rootID = 0 then
        RpcOk (subtree_levels (nodes t)
                 [\<lparr>GetNodeId = 0, GetParentId = 0, GetTimestamp = 0, GetMeta = []\<rparr>] depth, None)
      else
        case find (\<lambda>n. GetNodeId n = rootID) (nodes t) of
          None \<Rightarrow> RpcError ''node not found''
        | Some root \<Rightarrow> RpcOk (subtree_levels (nodes t) [root] depth, None))"

section \<open>TreeGateway: the calls that change the tree\<close>

text \<open>
  \<open>metaToKV\<close> lists the pairs of a Go map in no fixed order; the metadata of a request is
  kept as the list of its pairs, each key once, in the order the source assigns them.
\<close>

definition addNode :: "tree \<Rightarrow> nat \<Rightarrow> (string \<times> string) list \<Rightarrow> (error + nat) \<times> tree" where
  "addNode t parent meta =
     (case service_Add t parent meta of
        (SignError err, t') \<Rightarrow> (Inl err, t')
      | (RpcError msg, t') \<Rightarrow> (Inl (ErrNew msg), t')
      | (RpcOk nodeID, t') \<Rightarrow> (Inr nodeID, t'))"

definition addNodeByPath ::
  "tree \<Rightarrow> string list \<Rightarrow> (string \<times> string) list \<Rightarrow> error option \<times> tree" where
  "addNodeByPath t path meta =
     (case service_AddByPath t path meta of
        (SignError err, t') \<Rightarrow> (Some err, t')
      | (RpcError msg, t') \<Rightarrow> (Some (ErrNew msg), t')
      | (RpcOk u, t') \<Rightarrow> (None, t'))"

definition moveNode ::
  "tree \<Rightarrow> nat \<Rightarrow> nat \<Rightarrow> (string \<times> string) list \<Rightarrow> error option \<times> tree" where
  "moveNode t nodeID parentID meta =
     (case service_Move t nodeID parentID meta of
        (SignError err, t') \<Rightarrow> (Some err, t')
      | (RpcError msg, t') \<Rightarrow> (Some (ErrNew msg), t')
      | (RpcOk u, t') \<Rightarrow> (None, t'))"

section \<open>MultipartStore: \<open>AddPart\<close> and \<open>GetParts\<close>\<close>

text \<open>
  The loop of \<open>AddPart\<close> over the subtree: it yields \<open>foundPartID\<close> and
  \<open>oldObjIDToDelete\<close>, both zero when no part has the number.
\<close>

fun AddPart_loop :: "sdk \<Rightarrow> nat \<Rightarrow> int64 \<Rightarrow> node list \<Rightarrow> nat \<times> oid" where
  "AddPart_loop E multipartNodeID number [] = (0, 0)"
| "AddPart_loop E multipartNodeID number (part # parts) =
     (if GetNodeId part = multipartNodeID then AddPart_loop E multipartNodeID number parts
      else
        case newPartInfo E part of
          Inl err \<Rightarrow> AddPart_loop E multipartNodeID number parts
        | Inr partInfo \<Rightarrow>
            if Number partInfo = number then (GetNodeId part, part_OID partInfo)
            else AddPart_loop E multipartNodeID number parts)"

definition AddPart :: "sdk \<Rightarrow> tree \<Rightarrow> nat \<Rightarrow> PartInfo \<Rightarrow> (oid \<times> error option) \<times> tree" where
  "AddPart E t multipartNodeID info =
     (case getSubTree (service_GetSubTree t) multipartNodeID 1 of
        Inl err \<Rightarrow> ((0, Some err), t)
      | Inr parts \<Rightarrow>
          (let meta = [(partNumberKV, FormatInt (Number info)),
                       (oidKV, oid_EncodeToString E (part_OID info)),
                       (sizeKV, FormatInt (part_Size info)),
                       (createdKV, FormatInt (part_Created info)),
                       (etagKV, part_ETag info)];
               (foundPartID, oldObjIDToDelete) =
                  AddPart_loop E multipartNodeID (Number info) parts
           in if foundPartID \<noteq> multipartNodeID then
                (case addNode t multipartNodeID meta of
                   (Inl err, t') \<Rightarrow> ((0, Some err), t')
                 | (Inr nodeID, t') \<Rightarrow> ((0, Some ErrNoNodeToRemove), t'))
              else
                (case moveNode t foundPartID multipartNodeID meta of
                   (err, t') \<Rightarrow> ((oldObjIDToDelete, err), t'))))"

fun GetParts_loop :: "sdk \<Rightarrow> nat \<Rightarrow> node list \<Rightarrow> PartInfo list" where
  "GetParts_loop E multipartNodeID [] = []"
| "GetParts_loop E multipartNodeID (part # parts) =
     (if GetNodeId part = multipartNodeID then GetParts_loop E multipartNodeID parts
      else
        case newPartInfo E part of
          Inl err \<Rightarrow> GetParts_loop E multipartNodeID parts
        | Inr partInfo \<Rightarrow> partInfo # GetParts_loop E multipartNodeID parts)"

definition GetParts :: "sdk \<Rightarrow> tree \<Rightarrow> nat \<Rightarrow> error + PartInfo list" where
  "GetParts E t multipartNodeID =
     (case getSubTree (service_GetSubTree t) multipartNodeID 1 of
        Inl err \<Rightarrow> Inl err
      | Inr parts \<Rightarrow> Inr (GetParts_loop E multipartNodeID parts))"

section \<open>VersionStore: \<open>addVersion\<close>\<close>

text \<open>The metadata that \<open>addVersion\<close> builds before it looks at \<open>IsUnversioned\<close>.\<close>

definition addVersion_meta :: "sdk \<Rightarrow> NodeVersion \<Rightarrow> string list \<Rightarrow> (string \<times> string) list" where
  "addVersion_meta E version path =
     (let meta = [(oidKV, oid_EncodeToString E (OID version)),
                  (fileNameKV, path ! (length path - 1))];
          meta = (if 0 < sint (nv_Size version)
                  then meta @ [(sizeKV, FormatInt (nv_Size version))] else meta);
          meta = (if length (ETag version) > 0
                  then meta @ [(etagKV, ETag version)] else meta);
          meta = (case DeleteMarker version of
                    None \<Rightarrow> meta
                  | Some dm \<Rightarrow>
                      meta @ [(isDeleteMarkerKV, ''true''),
                              (ownerKV, user_EncodeToString E (Owner dm)),
                              (createdKV, FormatInt (Created dm))])
      in meta)"

definition addVersion :: "sdk \<Rightarrow> tree \<Rightarrow> NodeVersion \<Rightarrow> error option \<times> tree" where
  "addVersion E t version =
     (let path = pathFromName (FilePath version);
          meta = addVersion_meta E version path
      in if IsUnversioned version then
           (let meta = meta @ [(isUnversionedKV, ''true'')]
            in case getUnversioned E (service_GetNodeByPath t) (FilePath version) of
                 Inr nd \<Rightarrow>
                   (case getParent (service_GetSubTree t) (nv_ID nd) of
                      Inl err \<Rightarrow> (Some err, t)
                    | Inr parentID \<Rightarrow> moveNode t (nv_ID nd) parentID meta)
               | Inl err \<Rightarrow>
                   if \<not> errors_Is err ErrNodeNotFound then (Some err, t)
                   else addNodeByPath t (butlast path) meta)
         else addNodeByPath t (butlast path) meta)"

definition AddVersion :: "sdk \<Rightarrow> tree \<Rightarrow> NodeVersion \<Rightarrow> error option \<times> tree" where
  "AddVersion E t version = addVersion E t version"

text \<open>Calls of \<open>AddVersion\<close> one after the other; the first error ends the sequence.\<close>

fun AddVersion_seq :: "sdk \<Rightarrow> tree \<Rightarrow> NodeVersion list \<Rightarrow> error option \<times> tree" where
  "AddVersion_seq E t [] = (None, t)"
| "AddVersion_seq E t (version # versions) =
     (case AddVersion E t version of
        (Some err, t') \<Rightarrow> (Some err, t')
      | (None, t') \<Rightarrow> AddVersion_seq E t' versions)"

section \<open>A multipart upload for evaluation\<close>

text \<open>A tree that holds one multipart upload, the node 1, with no part yet.\<close>

definition upload_tree :: tree where
  "upload_tree =
     \<lparr>nodes = [\<lparr>GetNodeId = 1, GetParentId = 0, GetTimestamp = 0,
                 GetMeta = [(fileNameKV, ''obj''), (uploadIDKV, ''u1'')]\<rparr>],
      next_id = 2, clock = 1\<rparr>"

definition a_part :: "int64 \<Rightarrow> oid \<Rightarrow> PartInfo" where
  "a_part number objID =
     \<lparr>Key = ''obj'', UploadID = ''u1'', Number = number, part_OID = objID, part_Size = 5,
      part_ETag = ''etag'', part_Created = 1000\<rparr>"

section \<open>Unversioned writes for evaluation\<close>

definition empty_tree :: tree where
  "empty_tree = \<lparr>nodes = [], next_id = 1, clock = 0\<rparr>"

text \<open>An unversioned version of the object \<open>key\<close> with the payload \<open>objID\<close>.\<close>

definition an_unversioned :: "string \<Rightarrow> oid \<Rightarrow> NodeVersion" where
  "an_unversioned key objID =
     \<lparr>nv_ID = 0, OID = objID, Timestamp = 0, nv_Size = 10, ETag = ''etag'', FilePath = key,
      DeleteMarker = None, IsUnversioned = True\<rparr>"

section \<open>Properties of the string functions\<close>

lemma Split_not_Nil: "Split sep s \<noteq> []"
  by (induction s) (auto split: list.splits)

lemma Join_Cons: "ws \<noteq> [] \<Longrightarrow> Join sep (w # ws) = w @ sep # Join sep ws"
  by (cases ws) simp_all

lemma Join_Split: "Join sep (Split sep s) = s"
proof (induction s)
  case Nil
  show ?case by simp
next
  case (Cons c cs)
  show ?case
  proof (cases "c = sep")
    case True
    with Cons show ?thesis by (simp add: Join_Cons Split_not_Nil)
  next
    case False
    obtain w ws where sp: "Split sep cs = w # ws"
      using Split_not_Nil [of sep cs] by (cases "Split sep cs") auto
    have "Join sep ((c # w) # ws) = c # Join sep (w # ws)"
      by (cases ws) simp_all
    with Cons False sp show ?thesis by simp
  qed
qed

lemma map_unescape_id:
  "emptyFileName \<notin> set p \<Longrightarrow> map FileName_of_segment p = p"
  by (induction p) (auto simp: FileName_of_segment_def)

lemma unescape_pathFromName:
  assumes "emptyFileName \<notin> set (Split separator K)"
  shows "map FileName_of_segment (pathFromName K) = Split separator K"
proof -
  define p where "p = Split separator K"
  define p1 where "p1 = (if p ! 0 = [] then p[0 := emptyFileName] else p)"
  define p2 where "p2 = (if p1 ! (length p1 - 1) = [] then p1[length p1 - 1 := emptyFileName] else p1)"
  have ne: "p \<noteq> []" by (simp add: p_def Split_not_Nil)
  have e: "emptyFileName \<noteq> []" "FileName_of_segment emptyFileName = []"
    by (simp_all add: emptyFileName_def FileName_of_segment_def)
  have mp: "map FileName_of_segment p = p"
    using assms by (simp add: p_def map_unescape_id)
  have m1: "map FileName_of_segment p1 = p"
    using mp e by (simp add: p1_def map_update list_update_same_conv)
      (metis list_update_id)
  have len1: "length p1 = length p" by (simp add: p1_def)
  have last1: "p1 ! (length p1 - 1) = [] \<Longrightarrow> p ! (length p - 1) = []"
    using e ne by (auto simp: p1_def nth_list_update split: if_splits)
  have m2: "map FileName_of_segment p2 = p"
  proof (cases "p1 ! (length p1 - 1) = []")
    case True
    then have "p ! (length p - 1) = []" by (rule last1)
    then have "p[length p - 1 := []] = p" by (metis list_update_id)
    with True m1 e len1 show ?thesis by (simp add: p2_def map_update)
  next
    case False
    with m1 show ?thesis by (simp add: p2_def)
  qed
  have "pathFromName K = p2"
    by (simp add: pathFromName_def Let_def p2_def p1_def p_def)
  with m2 show ?thesis by (simp add: p_def)
qed

section \<open>Properties of the decimal functions\<close>

lemma of_char_digit_char:
  assumes "d < 10" shows "of_char (digit_char d) = (48::int) + int d"
proof -
  have "d = 0 \<or> d = 1 \<or> d = 2 \<or> d = 3 \<or> d = 4 \<or> d = 5 \<or> d = 6 \<or> d = 7 \<or> d = 8 \<or> d = 9"
    using assms by arith
  then show ?thesis by (elim disjE) (simp_all add: digit_char_def)
qed

lemma is_digit_digit_char: "d < 10 \<Longrightarrow> is_digit (digit_char d)"
  by (simp add: is_digit_def of_char_digit_char)

lemma digit_val_digit_char: "d < 10 \<Longrightarrow> digit_val (digit_char d) = int d"
  by (simp add: digit_val_def of_char_digit_char)

lemma FormatUint_digits: "list_all is_digit (FormatUint n) \<and> FormatUint n \<noteq> []"
proof (induction n rule: FormatUint.induct)
  case (1 n)
  show ?case
  proof (cases "n < 10")
    case True
    then show ?thesis by (simp add: FormatUint.simps [of n] is_digit_digit_char)
  next
    case False
    with 1 show ?thesis by (simp add: FormatUint.simps [of n] is_digit_digit_char)
  qed
qed

lemma FormatUint_value:
  "foldl (\<lambda>a c. 10 * a + digit_val c) 0 (FormatUint n) = int n"
proof (induction n rule: FormatUint.induct)
  case (1 n)
  show ?case
  proof (cases "n < 10")
    case True
    then show ?thesis by (simp add: FormatUint.simps [of n] digit_val_digit_char)
  next
    case False
    then have "foldl (\<lambda>a c. 10 * a + digit_val c) 0 (FormatUint (n div 10)) = int (n div 10)"
      using 1 by simp
    with False show ?thesis
      by (simp add: FormatUint.simps [of n] digit_val_digit_char zdiv_int zmod_int)
  qed
qed

lemma parse_digits_FormatUint: "parse_digits (FormatUint n) = Some (int n)"
  using FormatUint_digits [of n] by (simp add: parse_digits_def FormatUint_value)

lemma is_digit_not_sign: "is_digit c \<Longrightarrow> c \<noteq> CHR ''+'' \<and> c \<noteq> CHR ''-'' \<and> c \<noteq> CHR '',''"
  by (auto simp: is_digit_def)

lemma hd_FormatUint: "hd (FormatUint n) \<noteq> CHR ''+'' \<and> hd (FormatUint n) \<noteq> CHR ''-''"
proof -
  obtain c cs where f: "FormatUint n = c # cs"
    using FormatUint_digits [of n] by (cases "FormatUint n") auto
  with FormatUint_digits [of n] have "is_digit c" by simp
  with f show ?thesis by (simp add: is_digit_not_sign)
qed

lemma ParseInt_FormatInt: "ParseInt (FormatInt i) = Inr i"
proof (cases "sint i < 0")
  case True
  have lo: "- (2 ^ 63) \<le> sint i" using sint_ge [of i] by simp
  have "int (nat (- sint i)) = - sint i" using True by simp
  moreover have "\<not> (- sint i > 2 ^ 63)" using lo by simp
  ultimately show ?thesis using True
    by (simp add: ParseInt_def FormatInt_def parse_digits_FormatUint)
next
  case False
  have hi: "sint i < 2 ^ 63" using sint_lt [of i] by simp
  have nn: "0 \<le> sint i" using False by simp
  then have "\<not> 2 ^ 63 \<le> sint i" "\<not> 2 ^ 63 < - sint i" using hi by simp_all
  with False nn hd_FormatUint [of "nat (sint i)"] FormatUint_digits [of "nat (sint i)"]
  show ?thesis
    by (simp add: ParseInt_def FormatInt_def parse_digits_FormatUint)
qed

lemma FormatUint_no_comma: "CHR '','' \<notin> set (FormatUint n)"
  using FormatUint_digits [of n] is_digit_not_sign by (auto simp: list_all_iff)

lemma FormatInt_no_comma: "CHR '','' \<notin> set (FormatInt i)"
  by (simp add: FormatInt_def FormatUint_no_comma)

lemma FormatInt_not_Nil: "FormatInt i \<noteq> []"
  using FormatUint_digits by (simp add: FormatInt_def)

lemma Split_no_sep: "sep \<notin> set a \<Longrightarrow> Split sep a = [a]"
  by (induction a) auto

lemma Split_append_sep: "sep \<notin> set a \<Longrightarrow> Split sep (a @ sep # r) = a # Split sep r"
  using Split_not_Nil [of sep r] by (induction a) (auto split: list.splits)

section \<open>The path round trip\<close>

text \<open>
  Claim C5, as the code has it. The marker \<open><empty>\<close> is itself a possible segment of a
  key, and reading a path back turns every such segment into the empty string. For a key
  none of whose segments between separators is the marker, chaining the segments of
  \<open>pathFromName\<close> with the separator, the marker read back as the empty string, gives
  the key again; and \<open>pathFromName\<close> is injective on these keys.
\<close>

theorem pathFromName_roundtrip:
  "(emptyFileName \<notin> set (Split separator K) \<longrightarrow> nameFromPath (pathFromName K) = K) \<and>
   inj_on pathFromName {K. emptyFileName \<notin> set (Split separator K)}"
proof
  show "emptyFileName \<notin> set (Split separator K) \<longrightarrow> nameFromPath (pathFromName K) = K"
    by (simp add: nameFromPath_def unescape_pathFromName Join_Split)
next
  show "inj_on pathFromName {K. emptyFileName \<notin> set (Split separator K)}"
  proof (rule inj_onI)
    fix x y
    assume x: "x \<in> {K. emptyFileName \<notin> set (Split separator K)}"
      and y: "y \<in> {K. emptyFileName \<notin> set (Split separator K)}"
      and eq: "pathFromName x = pathFromName y"
    have "x = nameFromPath (pathFromName x)"
      using x by (simp add: nameFromPath_def unescape_pathFromName Join_Split)
    also have "\<dots> = nameFromPath (pathFromName y)" by (simp add: eq)
    also have "\<dots> = y"
      using y by (simp add: nameFromPath_def unescape_pathFromName Join_Split)
    finally show "x = y" .
  qed
qed

theorem pathFromName_roundtrip_witness:
  "emptyFileName \<notin> set (Split separator ''dir/'') \<and>
   nameFromPath (pathFromName ''dir/'') = ''dir/'' \<and> pathFromName ''dir/'' = [''dir'', ''<empty>'']"
  using pathFromName_roundtrip [of "''dir/''"]
  by (simp add: emptyFileName_def separator_def pathFromName_def)

theorem pathFromName_roundtrip_counterexample:
  "nameFromPath (pathFromName ''<empty>'') \<noteq> ''<empty>'' \<and>
   pathFromName ''<empty>'' = pathFromName '''' \<and> ''<empty>'' \<noteq> ''''"
  by (simp add: nameFromPath_def pathFromName_def emptyFileName_def separator_def
      FileName_of_segment_def)

section \<open>The lock configuration round trip\<close>

lemma Split_four:
  assumes "CHR '','' \<notin> set a" "CHR '','' \<notin> set b" "CHR '','' \<notin> set c" "CHR '','' \<notin> set d"
  shows "Split (CHR '','') (a @ '','' @ b @ '','' @ c @ '','' @ d) = [a, b, c, d]"
  using assms by (simp add: Split_append_sep Split_no_sep)

lemma parse_encode_retention:
  assumes "CHR '','' \<notin> set en" "CHR '','' \<notin> set (Mode d)"
  shows "parseLockConfiguration
           (en @ '','' @ FormatInt (Days d) @ '','' @ Mode d @ '','' @ FormatInt (Years d)) =
         Inr \<lparr>ObjectLockEnabled = en, Rule = Some \<lparr>DefaultRetention = Some d\<rparr>\<rparr>"
proof -
  have sp: "Split (CHR '','')
              (en @ '','' @ FormatInt (Days d) @ '','' @ Mode d @ '','' @ FormatInt (Years d)) =
            [en, FormatInt (Days d), Mode d, FormatInt (Years d)]"
    using assms by (intro Split_four) (simp_all add: FormatInt_no_comma)
  show ?thesis
    unfolding parseLockConfiguration_def Let_def sp
    by (simp add: ParseInt_FormatInt FormatInt_not_Nil)
qed

lemma parse_encode_enabled_only:
  assumes "CHR '','' \<notin> set en"
  shows "parseLockConfiguration en = Inr \<lparr>ObjectLockEnabled = en, Rule = None\<rparr>"
  using assms by (simp add: parseLockConfiguration_def Let_def Split_no_sep)

text \<open>
  Claim C7. For every well-formed lock configuration \<open>c\<close> (no comma in
  \<open>ObjectLockEnabled\<close> and \<open>Mode\<close>; a rule, if present, holds a default retention),
  parsing the encoding of \<open>c\<close> gives \<open>c\<close> back. The encoding of the nil configuration
  is the empty string, and the empty string parses to the empty configuration.
\<close>

theorem lock_configuration_roundtrip:
  "(wellformed_lock_configuration c \<longrightarrow>
      parseLockConfiguration (encodeLockConfiguration (Some c)) = Inr c) \<and>
   encodeLockConfiguration None = [] \<and>
   parseLockConfiguration [] = Inr \<lparr>ObjectLockEnabled = [], Rule = None\<rparr>"
proof (intro conjI impI)
  assume wf: "wellformed_lock_configuration c"
  show "parseLockConfiguration (encodeLockConfiguration (Some c)) = Inr c"
  proof (cases "Rule c")
    case None
    with wf show ?thesis
      by (simp add: encodeLockConfiguration_def wellformed_lock_configuration_def
          parse_encode_enabled_only)
  next
    case (Some r)
    with wf obtain d where d: "DefaultRetention r = Some d" "CHR '','' \<notin> set (Mode d)"
      by (auto simp: wellformed_lock_configuration_def split: option.splits)
    have en: "CHR '','' \<notin> set (ObjectLockEnabled c)"
      using wf by (simp add: wellformed_lock_configuration_def)
    have "r = \<lparr>DefaultRetention = Some d\<rparr>" using d by simp
    with Some have "c = \<lparr>ObjectLockEnabled = ObjectLockEnabled c,
                          Rule = Some \<lparr>DefaultRetention = Some d\<rparr>\<rparr>" by simp
    moreover have "encodeLockConfiguration (Some c) =
        ObjectLockEnabled c @ '','' @ FormatInt (Days d) @ '','' @ Mode d @ '','' @ FormatInt (Years d)"
      using Some d by (simp add: encodeLockConfiguration_def)
    ultimately show ?thesis using parse_encode_retention [OF en d(2)] by simp
  qed
next
  show "encodeLockConfiguration None = []" by (simp add: encodeLockConfiguration_def)
next
  show "parseLockConfiguration [] = Inr \<lparr>ObjectLockEnabled = [], Rule = None\<rparr>"
    by (simp add: parseLockConfiguration_def)
qed

theorem lock_configuration_roundtrip_witness:
  "wellformed_lock_configuration
     \<lparr>ObjectLockEnabled = ''Enabled'',
      Rule = Some \<lparr>DefaultRetention = Some \<lparr>Days = 10, Mode = ''GOVERNANCE'', Years = 0\<rparr>\<rparr>\<rparr> \<and>
   encodeLockConfiguration (Some
     \<lparr>ObjectLockEnabled = ''Enabled'',
      Rule = Some \<lparr>DefaultRetention = Some \<lparr>Days = 10, Mode = ''GOVERNANCE'', Years = 0\<rparr>\<rparr>\<rparr>) =
     ''Enabled,10,GOVERNANCE,0'' \<and>
   parseLockConfiguration ''Enabled,10,GOVERNANCE,0'' = Inr
     \<lparr>ObjectLockEnabled = ''Enabled'',
      Rule = Some \<lparr>DefaultRetention = Some \<lparr>Days = 10, Mode = ''GOVERNANCE'', Years = 0\<rparr>\<rparr>\<rparr>"
proof -
  let ?c = "\<lparr>ObjectLockEnabled = ''Enabled'',
      Rule = Some \<lparr>DefaultRetention = Some \<lparr>Days = 10, Mode = ''GOVERNANCE'', Years = 0\<rparr>\<rparr>\<rparr>"
  have wf: "wellformed_lock_configuration ?c"
    by (simp add: wellformed_lock_configuration_def)
  have enc: "encodeLockConfiguration (Some ?c) = ''Enabled,10,GOVERNANCE,0''"
    by (simp add: encodeLockConfiguration_def FormatInt_def FormatUint.simps digit_char_def)
  from lock_configuration_roundtrip [of ?c] wf
  have "parseLockConfiguration (encodeLockConfiguration (Some ?c)) = Inr ?c" by blast
  with wf enc show ?thesis by simp
qed

text \<open>
  A rule without default retention is written like no rule at all, and is read back as
  no rule: such a configuration is outside \<open>wellformed_lock_configuration\<close>.
\<close>

lemma lock_configuration_rule_without_retention:
  "parseLockConfiguration (encodeLockConfiguration (Some \<lparr>ObjectLockEnabled = ''Enabled'', Rule = Some \<lparr>DefaultRetention = None\<rparr>\<rparr>))
  = Inr \<lparr>ObjectLockEnabled = ''Enabled'', Rule = None\<rparr>"
  by (simp add: encodeLockConfiguration_def parseLockConfiguration_def)

section \<open>Decoding a node\<close>

lemma newTreeNode_loop_rejects:
  assumes "(k, v) \<in> set kvs"
    and "(k = oidKV \<and> isl (oid_DecodeString E v)) \<or> (k = sizeKV \<and> v \<noteq> [] \<and> isl (ParseInt v))"
  shows "isl (newTreeNode_loop E kvs t)"
  using assms
proof (induction kvs arbitrary: t)
  case Nil
  then show ?case by simp
next
  case (Cons kv kvs)
  obtain k' v' where kv: "kv = (k', v')" by (cases kv)
  show ?case
  proof (cases "(k, v) = (k', v')")
    case True
    with Cons.prems(2) kv show ?thesis
      by (auto simp: oidKV_def sizeKV_def isl_def)
  next
    case False
    with Cons.prems(1) kv have "(k, v) \<in> set kvs" by auto
    then have "\<And>t. isl (newTreeNode_loop E kvs t)" using Cons.IH Cons.prems(2) by blast
    then show ?thesis by (simp add: kv split: sum.splits)
  qed
qed

text \<open>
  Claim C8, as the code has it. \<open>newTreeNode\<close> returns an error for every node whose
  metadata holds an \<open>OID\<close> value that does not decode as an object id, or a non-empty
  \<open>Size\<close> value that does not parse as a decimal 64-bit integer. An empty \<open>Size\<close> value
  is skipped by the guard on its length, and the node is returned with the size left at
  zero.
\<close>

theorem newTreeNode_rejects_unparseable:
  assumes "(k, v) \<in> set (GetMeta nd)"
    and "(k = oidKV \<and> isl (oid_DecodeString E v)) \<or> (k = sizeKV \<and> v \<noteq> [] \<and> isl (ParseInt v))"
  shows "isl (newTreeNode E nd)"
  unfolding newTreeNode_def using assms by (rule newTreeNode_loop_rejects)

theorem newTreeNode_rejects_unparseable_witness:
  "(sizeKV, ''12x'') \<in> set (GetMeta \<lparr>GetNodeId = 1, GetParentId = 0, GetTimestamp = 1,
       GetMeta = [(fileNameKV, ''a''), (sizeKV, ''12x'')]\<rparr>) \<and>
   ''12x'' \<noteq> [] \<and> isl (ParseInt ''12x'') \<and>
   isl (newTreeNode decimal_sdk \<lparr>GetNodeId = 1, GetParentId = 0, GetTimestamp = 1,
       GetMeta = [(fileNameKV, ''a''), (sizeKV, ''12x'')]\<rparr>)"
proof -
  let ?nd = "\<lparr>GetNodeId = 1, GetParentId = 0, GetTimestamp = 1,
       GetMeta = [(fileNameKV, ''a''), (sizeKV, ''12x'')]\<rparr>"
  have m: "(sizeKV, ''12x'') \<in> set (GetMeta ?nd)" by simp
  have p: "isl (ParseInt ''12x'')"
    by (simp add: ParseInt_def parse_digits_def is_digit_def)
  from newTreeNode_rejects_unparseable [of sizeKV "''12x''" ?nd decimal_sdk] m p
  have "isl (newTreeNode decimal_sdk ?nd)" by simp
  with m p show ?thesis by simp
qed

theorem newTreeNode_rejects_unparseable_counterexample:
  "isl (ParseInt []) \<and>
   newTreeNode decimal_sdk
     \<lparr>GetNodeId = 1, GetParentId = 0, GetTimestamp = 1, GetMeta = [(sizeKV, [])]\<rparr> =
   Inr \<lparr>ID = 1, ObjID = 0, TimeStamp = 1, Size = 0, Meta = Map.empty\<rparr>"
  by (simp add: ParseInt_def newTreeNode_def sizeKV_def oidKV_def)

section \<open>Listing versions when the path is not found\<close>

text \<open>
  Claim C9. When the service answers the lookup of the path with an error whose message
  holds \<open>not found\<close>, \<open>getVersions\<close> and \<open>GetVersions\<close> return the empty list and no
  error. \<open>getNodes\<close> turns the answer into the sentinel \<open>ErrNodeNotFound\<close>, and
  \<open>getVersions\<close> looks for \<open>not found\<close> in the message of what it received: the message
  of the sentinel, declared in package layer, has to hold these words.
\<close>

theorem getVersions_not_found:
  assumes "service \<lparr>Path = pathFromName filepath,
                    Attributes = [oidKV, isUnversionedKV, isDeleteMarkerKV, etagKV, sizeKV],
                    LatestOnly = False, AllAttrs = False\<rparr> = RpcError msg"
    and "Contains msg ''not found''"
    and "Contains (ErrNodeNotFound_text E) ''not found''"
  shows "getVersions E service filepath onlyUnversioned = Inr [] \<and>
         GetVersions E service filepath = Inr []"
  using assms by (simp add: GetVersions_def getVersions_def getNodes_def err_Error_def)

theorem getVersions_not_found_witness:
  "(\<lambda>p. RpcError ''rpc error: node not found'')
      \<lparr>Path = pathFromName ''a/b'',
       Attributes = [oidKV, isUnversionedKV, isDeleteMarkerKV, etagKV, sizeKV],
       LatestOnly = False, AllAttrs = False\<rparr> = (RpcError ''rpc error: node not found'' :: node list rpc) \<and>
   Contains ''rpc error: node not found'' ''not found'' \<and>
   Contains (ErrNodeNotFound_text decimal_sdk) ''not found'' \<and>
   GetVersions decimal_sdk (\<lambda>p. RpcError ''rpc error: node not found'') ''a/b'' = Inr []"
proof -
  have c1: "Contains ''rpc error: node not found'' ''not found''" by simp
  have c2: "Contains (ErrNodeNotFound_text decimal_sdk) ''not found''"
    by (simp add: decimal_sdk_def)
  from getVersions_not_found [of "\<lambda>p. RpcError ''rpc error: node not found''" "''a/b''"
      "''rpc error: node not found''" decimal_sdk False] c1 c2
  have "GetVersions decimal_sdk (\<lambda>p. RpcError ''rpc error: node not found'') ''a/b'' = Inr []"
    by simp
  with c1 c2 show ?thesis by simp
qed

section \<open>The listing: page and cursor\<close>







text \<open>The definitions that evaluate a listing at a concrete input.\<close>

lemmas listing_eval =
  sorted_objects_def map_keys_def map_index_def insertion_sortSlice_def mark_latest_def
  advance_cursor_def triageExtendedObjects_def remaining_objects_def a_version_def
  listing_params_def timestamp_def List.map_filter_def to_ObjectVersionInfo_def






text \<open>
  When an object is at or after both markers, the cursor keeps the slice from the first
  such object on.
\<close>

lemma find_cursor_first:
  assumes "find_cursor keyMarker versionIDMarker objs = Some i"
  shows "i < length objs \<and>
         keyMarker \<le> Name (ObjectInfo (objs ! i)) \<and>
         versionIDMarker \<le> VersionID (ObjectInfo (objs ! i)) \<and>
         (\<forall>j < i. \<not> (keyMarker \<le> Name (ObjectInfo (objs ! j)) \<and>
                       versionIDMarker \<le> VersionID (ObjectInfo (objs ! j)))) \<and>
         advance_cursor keyMarker versionIDMarker objs = drop i objs"
  using assms
proof (induction objs arbitrary: i)
  case Nil
  then show ?case by simp
next
  case (Cons obj objs)
  show ?case
  proof (cases "keyMarker \<le> Name (ObjectInfo obj) \<and> versionIDMarker \<le> VersionID (ObjectInfo obj)")
    case True
    with Cons.prems show ?thesis by (simp add: advance_cursor_def)
  next
    case False
    with Cons.prems obtain k where k: "find_cursor keyMarker versionIDMarker objs = Some k" "i = Suc k"
      by auto
    from Cons.IH [OF k(1)] False k show ?thesis
      by (auto simp: advance_cursor_def less_Suc_eq_0_disj)
  qed
qed

text \<open>
  Claim C2 says that the cursor leaves the empty list when no object is at or after both
  markers. At the input below no object is: the loop ends without a match and the
  slice stays whole, so the object before the marker is listed.
\<close>

theorem advance_cursor_no_match:
  "find_cursor ''b'' [] [a_version ''a'' ''v1'' 1] = None \<and>
   advance_cursor ''b'' [] [a_version ''a'' ''v1'' 1] = [a_version ''a'' ''v1'' 1] \<and>
   remaining_objects insertion_sortSlice (\<lambda>v. None) [(''a'', [a_version ''a'' ''v1'' 1])]
     (listing_params ''b'' [] 10) = [(a_version ''a'' ''v1'' 1)\<lparr>IsLatest := True\<rparr>]"
  by (simp add: listing_eval)

section \<open>The latest flag\<close>









lemma concat_map_none:
  "(\<forall>n \<in> set ns. f n = []) \<Longrightarrow> concat (map f ns) = []"
  by simp





























section \<open>Adding a part twice\<close>

text \<open>The definitions that evaluate the calls on a tree at a concrete input.\<close>

lemmas tree_eval =
  getSubTree_def service_GetSubTree_def addNode_def service_Add_def moveNode_def
  service_Move_def newPartInfo_def ParseInt_def Atoi_def parse_digits_def is_digit_def digit_val_def
  FormatInt_def FormatUint.simps digit_char_def decimal_sdk_def decimal_DecodeString_def
  partNumberKV_def oidKV_def sizeKV_def createdKV_def etagKV_def fileNameKV_def uploadIDKV_def
  zero_time_def

lemma AddPart_first:
  "AddPart decimal_sdk upload_tree 1 (a_part 1 7) =
     ((0, Some ErrNoNodeToRemove),
      \<lparr>nodes = [\<lparr>GetNodeId = 1, GetParentId = 0, GetTimestamp = 0,
                  GetMeta = [(fileNameKV, ''obj''), (uploadIDKV, ''u1'')]\<rparr>,
                \<lparr>GetNodeId = 2, GetParentId = 1, GetTimestamp = 1,
                  GetMeta = [(partNumberKV, ''1''), (oidKV, ''7''), (sizeKV, ''5''),
                             (createdKV, ''1000''), (etagKV, ''etag'')]\<rparr>],
       next_id = 3, clock = 2\<rparr>)"
  by (simp add: AddPart_def upload_tree_def a_part_def tree_eval)

text \<open>
  The loop skips the upload node itself, so a part it finds never has the id of the
  upload node, and the test \<open>foundPartID != multipartNodeID\<close> that guards the branch of
  \<open>addNode\<close> holds whenever a part was found. For an upload node other than the root of
  the tree the move is never reached: every call adds a node and returns the sentinel.
\<close>

lemma AddPart_loop_found:
  "fst (AddPart_loop E multipartNodeID number parts) = 0 \<or>
   fst (AddPart_loop E multipartNodeID number parts) \<noteq> multipartNodeID"
  by (induction parts) (auto split: sum.splits)

lemma AddPart_never_moves:
  assumes "multipartNodeID \<noteq> 0"
    and "getSubTree (service_GetSubTree t) multipartNodeID 1 = Inr parts"
  shows "fst (AddPart E t multipartNodeID info) = (0, Some ErrNoNodeToRemove) \<and>
         length (nodes (snd (AddPart E t multipartNodeID info))) = Suc (length (nodes t))"
proof -
  obtain f old where l: "AddPart_loop E multipartNodeID (Number info) parts = (f, old)"
    by (cases "AddPart_loop E multipartNodeID (Number info) parts")
  with AddPart_loop_found [of E multipartNodeID "Number info" parts] assms(1)
  have "f \<noteq> multipartNodeID" by auto
  with assms(2) l show ?thesis
    by (simp add: AddPart_def addNode_def service_Add_def)
qed

text \<open>
  Claim C1 says that \<open>AddPart(n, oidA)\<close> followed by \<open>AddPart(n, oidB)\<close> leaves one child
  with the number \<open>n\<close>, holding \<open>oidB\<close>, and that the second call returns \<open>oidA\<close>. On the
  upload node 1 with the part number 1 and the object ids 7 and 8, the first call returns
  the sentinel \<open>ErrNoNodeToRemove\<close>; the second call returns the sentinel again, not the
  id 7, and adds the node 3 beside the node 2: \<open>GetParts\<close> lists two parts with the
  number 1.
\<close>

theorem AddPart_same_number_twice:
  "fst (AddPart decimal_sdk upload_tree 1 (a_part 1 7)) = (0, Some ErrNoNodeToRemove) \<and>
   AddPart decimal_sdk (snd (AddPart decimal_sdk upload_tree 1 (a_part 1 7))) 1 (a_part 1 8) =
     ((0, Some ErrNoNodeToRemove),
      \<lparr>nodes = [\<lparr>GetNodeId = 1, GetParentId = 0, GetTimestamp = 0,
                  GetMeta = [(fileNameKV, ''obj''), (uploadIDKV, ''u1'')]\<rparr>,
                \<lparr>GetNodeId = 2, GetParentId = 1, GetTimestamp = 1,
                  GetMeta = [(partNumberKV, ''1''), (oidKV, ''7''), (sizeKV, ''5''),
                             (createdKV, ''1000''), (etagKV, ''etag'')]\<rparr>,
                \<lparr>GetNodeId = 3, GetParentId = 1, GetTimestamp = 2,
                  GetMeta = [(partNumberKV, ''1''), (oidKV, ''8''), (sizeKV, ''5''),
                             (createdKV, ''1000''), (etagKV, ''etag'')]\<rparr>],
       next_id = 4, clock = 3\<rparr>) \<and>
   GetParts decimal_sdk
     (snd (AddPart decimal_sdk (snd (AddPart decimal_sdk upload_tree 1 (a_part 1 7))) 1 (a_part 1 8))) 1 =
     Inr [\<lparr>Key = [], UploadID = [], Number = 1, part_OID = 7, part_Size = 5,
           part_ETag = ''etag'', part_Created = 1000\<rparr>,
          \<lparr>Key = [], UploadID = [], Number = 1, part_OID = 8, part_Size = 5,
           part_ETag = ''etag'', part_Created = 1000\<rparr>]"
  unfolding AddPart_first fst_conv snd_conv
  by (simp add: AddPart_def GetParts_def a_part_def tree_eval)

section \<open>The unversioned slot\<close>

text \<open>
  How the calls of the service change the nodes at a path. A node that \<open>Add\<close> creates
  has a fresh id, so it lies at a path exactly when its parent lies at the path above and
  its \<open>FileName\<close> is the last segment, and no other node changes its place.
\<close>

lemma service_Add_nodes:
  "nodes (snd (service_Add t parent meta)) =
     nodes t @ [\<lparr>GetNodeId = next_id t, GetParentId = parent, GetTimestamp = clock t,
                 GetMeta = meta\<rparr>]"
  "next_id (snd (service_Add t parent meta)) = Suc (next_id t)"
  by (simp_all add: service_Add_def)

lemma wf_tree_service_Add:
  assumes "wf_tree t" "parent < next_id t"
  shows "wf_tree (snd (service_Add t parent meta))"
  using assms by (auto simp: wf_tree_def service_Add_nodes)

lemma on_path_service_Add:
  assumes "wf_tree t" "parent < next_id t"
  shows "on_path (nodes (snd (service_Add t parent meta))) i up \<longleftrightarrow>
           on_path (nodes t) i up \<or>
           (i = next_id t \<and> (\<exists>seg up'. up = seg # up' \<and> map_of meta fileNameKV = Some seg \<and>
                                  on_path (nodes t) parent up'))"
proof (induction up arbitrary: i)
  case Nil
  from assms(1) have "0 < next_id t" by (simp add: wf_tree_def)
  then show ?case by auto
next
  case (Cons seg up')
  let ?m = "\<lparr>GetNodeId = next_id t, GetParentId = parent, GetTimestamp = clock t,
              GetMeta = meta\<rparr>"
  let ?ns' = "nodes t @ [?m]"
  have old: "on_path ?ns' (GetParentId n) up' = on_path (nodes t) (GetParentId n) up'"
    if "n \<in> set (nodes t)" for n
  proof -
    from that assms(1) have "GetParentId n \<noteq> next_id t" by (auto simp: wf_tree_def)
    with Cons.IH [of "GetParentId n"] show ?thesis by (simp add: service_Add_nodes)
  qed
  have new: "on_path ?ns' parent up' = on_path (nodes t) parent up'"
    using Cons.IH [of parent] assms(2) by (simp add: service_Add_nodes)
  have fresh: "GetNodeId n \<noteq> next_id t" if "n \<in> set (nodes t)" for n
    using that assms(1) by (auto simp: wf_tree_def)
  show ?case
    unfolding service_Add_nodes
    by (auto simp: list_ex_iff old new path_attribute_def dest: fresh)
qed

lemma ensure_path_correct:
  assumes "wf_tree t" "parent < next_id t" "on_path (nodes t) parent up0"
    and "ensure_path t parent segs = (t', p)"
  shows "wf_tree t' \<and> p < next_id t' \<and> on_path (nodes t') p (rev segs @ up0) \<and>
         next_id t \<le> next_id t' \<and>
         (\<forall>i up. i < next_id t \<longrightarrow> on_path (nodes t') i up = on_path (nodes t) i up) \<and>
         (\<exists>new. nodes t' = nodes t @ new \<and>
                (\<forall>m \<in> set new. next_id t \<le> GetNodeId m \<and>
                   (\<exists>seg. GetMeta m = [(fileNameKV, seg)])))"
  using assms
proof (induction segs arbitrary: t parent up0)
  case Nil
  then show ?case by simp
next
  case (Cons seg rest)
  show ?case
  proof (cases "find (\<lambda>n. GetParentId n = parent \<and> path_attribute n = Some seg) (nodes t)")
    case (Some n)
    then have n: "n \<in> set (nodes t)" "GetParentId n = parent" "path_attribute n = Some seg"
      by (auto simp: find_Some_iff)
    from n Cons.prems(1) have lt: "GetNodeId n < next_id t" by (simp add: wf_tree_def)
    from n Cons.prems(3) have op: "on_path (nodes t) (GetNodeId n) (seg # up0)"
      by (auto simp: list_ex_iff)
    from Cons.prems(4) Some have e: "ensure_path t (GetNodeId n) rest = (t', p)" by simp
    from Cons.IH [OF Cons.prems(1) lt op e] show ?thesis by simp
  next
    case None
    let ?t1 = "snd (service_Add t parent [(fileNameKV, seg)])"
    have wf1: "wf_tree ?t1" by (rule wf_tree_service_Add [OF Cons.prems(1,2)])
    have lt: "next_id t < next_id ?t1" by (simp add: service_Add_nodes)
    have op: "on_path (nodes ?t1) (next_id t) (seg # up0)"
      using Cons.prems(3) by (subst on_path_service_Add [OF Cons.prems(1,2)]) simp
    from Cons.prems(4) None have e: "ensure_path ?t1 (next_id t) rest = (t', p)" by simp
    from Cons.IH [OF wf1 lt op e]
    have ih: "wf_tree t'" "p < next_id t'" "on_path (nodes t') p (rev rest @ seg # up0)"
      "next_id ?t1 \<le> next_id t'"
      "\<forall>i up. i < next_id ?t1 \<longrightarrow> on_path (nodes t') i up = on_path (nodes ?t1) i up"
      "\<exists>new. nodes t' = nodes ?t1 @ new \<and>
                (\<forall>m \<in> set new. next_id ?t1 \<le> GetNodeId m \<and>
                   (\<exists>seg. GetMeta m = [(fileNameKV, seg)]))"
      by simp_all
    have frame: "\<forall>i up. i < next_id t \<longrightarrow> on_path (nodes t') i up = on_path (nodes t) i up"
    proof (intro allI impI)
      fix i up assume i: "i < next_id t"
      then have "on_path (nodes t') i up = on_path (nodes ?t1) i up"
        using ih(5) lt by simp
      also have "\<dots> = on_path (nodes t) i up"
        using i by (subst on_path_service_Add [OF Cons.prems(1,2)]) simp
      finally show "on_path (nodes t') i up = on_path (nodes t) i up" .
    qed
    from ih(6) obtain new where new: "nodes t' = nodes ?t1 @ new"
      "\<forall>m \<in> set new. next_id ?t1 \<le> GetNodeId m \<and> (\<exists>seg. GetMeta m = [(fileNameKV, seg)])"
      by blast
    let ?m = "\<lparr>GetNodeId = next_id t, GetParentId = parent, GetTimestamp = clock t,
              GetMeta = [(fileNameKV, seg)]\<rparr>"
    have "nodes t' = nodes t @ (?m # new)" using new(1) by (simp add: service_Add_nodes)
    moreover have "\<forall>m \<in> set (?m # new). next_id t \<le> GetNodeId m \<and>
                     (\<exists>seg. GetMeta m = [(fileNameKV, seg)])"
      using new(2) by (auto simp: service_Add_nodes)
    ultimately have ex: "\<exists>new. nodes t' = nodes t @ new \<and>
                (\<forall>m \<in> set new. next_id t \<le> GetNodeId m \<and>
                   (\<exists>seg. GetMeta m = [(fileNameKV, seg)]))" by blast
    from ih(1,2,3,4) lt frame ex show ?thesis by simp
  qed
qed


lemma same_id_same_node:
  assumes "wf_tree t" "n \<in> set (nodes t)" "n' \<in> set (nodes t)" "GetNodeId n = GetNodeId n'"
  shows "n = n'"
proof -
  from assms(1) have "distinct (map GetNodeId (nodes t))" by (simp add: wf_tree_def)
  then have "inj_on GetNodeId (set (nodes t))" by (simp add: distinct_map)
  with assms(2,3,4) show ?thesis by (auto dest: inj_onD)
qed

lemma on_path_unique:
  assumes "wf_tree t"
  shows "on_path (nodes t) i up \<Longrightarrow> on_path (nodes t) i up' \<Longrightarrow> up = up'"
proof (induction up arbitrary: i up')
  case Nil
  then have i: "i = 0" by simp
  show ?case
  proof (cases up')
    case Nil
    then show ?thesis by simp
  next
    case (Cons seg' u')
    with Nil.prems(2) i obtain n where "n \<in> set (nodes t)" "GetNodeId n = 0"
      by (auto simp: list_ex_iff)
    with assms show ?thesis by (auto simp: wf_tree_def)
  qed
next
  case (Cons seg u)
  from Cons.prems(1) obtain n where n: "n \<in> set (nodes t)" "GetNodeId n = i"
      "path_attribute n = Some seg" "on_path (nodes t) (GetParentId n) u"
    by (auto simp: list_ex_iff)
  from n(1,2) assms have "i \<noteq> 0" by (auto simp: wf_tree_def)
  with Cons.prems(2) obtain seg' u' where up': "up' = seg' # u'" by (cases up') auto
  with Cons.prems(2) obtain n' where n': "n' \<in> set (nodes t)" "GetNodeId n' = i"
      "path_attribute n' = Some seg'" "on_path (nodes t) (GetParentId n') u'"
    by (auto simp: list_ex_iff)
  from same_id_same_node [OF assms n(1) n'(1)] n(2) n'(2) have "n = n'" by simp
  with n n' Cons.IH [of "GetParentId n" u'] up' show ?case by simp
qed

lemma ensure_path_depth:
  assumes "wf_tree t" "parent < next_id t" "on_path (nodes t) parent up0"
    and "ensure_path t parent segs = (t', p)"
    and "m \<in> set (nodes t')" "next_id t \<le> GetNodeId m"
  shows "\<exists>up. on_path (nodes t') (GetNodeId m) up \<and> length up \<le> length segs + length up0"
  using assms
proof (induction segs arbitrary: t parent up0)
  case Nil
  then show ?case by (auto simp: wf_tree_def)
next
  case (Cons seg rest)
  show ?case
  proof (cases "find (\<lambda>n. GetParentId n = parent \<and> path_attribute n = Some seg) (nodes t)")
    case (Some n)
    then have n: "n \<in> set (nodes t)" "GetParentId n = parent" "path_attribute n = Some seg"
      by (auto simp: find_Some_iff)
    from n Cons.prems(1) have lt: "GetNodeId n < next_id t" by (simp add: wf_tree_def)
    from n Cons.prems(3) have op: "on_path (nodes t) (GetNodeId n) (seg # up0)"
      by (auto simp: list_ex_iff)
    from Cons.prems(4) Some have e: "ensure_path t (GetNodeId n) rest = (t', p)" by simp
    from Cons.IH [OF Cons.prems(1) lt op e Cons.prems(5,6)] show ?thesis by auto
  next
    case None
    let ?t1 = "snd (service_Add t parent [(fileNameKV, seg)])"
    have wf1: "wf_tree ?t1" by (rule wf_tree_service_Add [OF Cons.prems(1,2)])
    have lt: "next_id t < next_id ?t1" by (simp add: service_Add_nodes)
    have op: "on_path (nodes ?t1) (next_id t) (seg # up0)"
      using Cons.prems(3) by (subst on_path_service_Add [OF Cons.prems(1,2)]) simp
    from Cons.prems(4) None have e: "ensure_path ?t1 (next_id t) rest = (t', p)" by simp
    show ?thesis
    proof (cases "GetNodeId m = next_id t")
      case True
      from ensure_path_correct [OF wf1 lt op e] lt
      have "on_path (nodes t') (next_id t) (seg # up0) = on_path (nodes ?t1) (next_id t) (seg # up0)"
        by blast
      with op True have "on_path (nodes t') (GetNodeId m) (seg # up0)" by simp
      then show ?thesis by (intro exI [of _ "seg # up0"]) simp
    next
      case False
      with Cons.prems(6) have "next_id ?t1 \<le> GetNodeId m" by (simp add: service_Add_nodes)
      from Cons.IH [OF wf1 lt op e Cons.prems(5) this] show ?thesis by auto
    qed
  qed
qed

lemma service_AddByPath_nodes_at:
  assumes "wf_tree t" "map_of meta fileNameKV = Some fn"
  shows "\<exists>t'' leaf. service_AddByPath t dir meta = (RpcOk (), t'') \<and> wf_tree t'' \<and>
           nodes_at t'' (fn # rev dir) = nodes_at t (fn # rev dir) @ [leaf] \<and>
           GetMeta leaf = meta \<and> next_id t \<le> GetNodeId leaf"
proof -
  obtain t' p where e: "ensure_path t 0 dir = (t', p)" by (cases "ensure_path t 0 dir")
  from assms(1) have z: "0 < next_id t" by (simp add: wf_tree_def)
  have r: "on_path (nodes t) 0 []" by simp
  from ensure_path_correct [OF assms(1) z r e]
  have c: "wf_tree t'" "p < next_id t'" "on_path (nodes t') p (rev dir)" "next_id t \<le> next_id t'"
    "\<forall>i up. i < next_id t \<longrightarrow> on_path (nodes t') i up = on_path (nodes t) i up"
    "\<exists>new. nodes t' = nodes t @ new \<and>
        (\<forall>m \<in> set new. next_id t \<le> GetNodeId m \<and> (\<exists>seg. GetMeta m = [(fileNameKV, seg)]))"
    by simp_all
  from c(6) obtain new where new: "nodes t' = nodes t @ new"
    "\<forall>m \<in> set new. next_id t \<le> GetNodeId m" by blast
  let ?leaf = "\<lparr>GetNodeId = next_id t', GetParentId = p, GetTimestamp = clock t',
                 GetMeta = meta\<rparr>"
  let ?t2 = "snd (service_Add t' p meta)"
  let ?up = "fn # rev dir"
  have wf2: "wf_tree ?t2" by (rule wf_tree_service_Add [OF c(1,2)])
  have n2: "nodes ?t2 = nodes t @ new @ [?leaf]" by (simp add: service_Add_nodes new(1))
  have old: "on_path (nodes ?t2) (GetNodeId n) ?up = on_path (nodes t) (GetNodeId n) ?up"
    if "n \<in> set (nodes t)" for n
  proof -
    from that assms(1) have lt: "GetNodeId n < next_id t" by (simp add: wf_tree_def)
    with c(4) have "GetNodeId n \<noteq> next_id t'" by simp
    with on_path_service_Add [OF c(1,2), of meta "GetNodeId n" ?up]
    have "on_path (nodes ?t2) (GetNodeId n) ?up = on_path (nodes t') (GetNodeId n) ?up"
      by (simp del: on_path.simps)
    also have "\<dots> = on_path (nodes t) (GetNodeId n) ?up" using c(5) lt by blast
    finally show ?thesis .
  qed
  have mid: "\<not> on_path (nodes ?t2) (GetNodeId m) ?up" if "m \<in> set new" for m
  proof
    assume a: "on_path (nodes ?t2) (GetNodeId m) ?up"
    from that new(1) have m': "m \<in> set (nodes t')" by simp
    with c(1) have "GetNodeId m < next_id t'" by (simp add: wf_tree_def)
    with a have a': "on_path (nodes t') (GetNodeId m) ?up"
      by (subst (asm) on_path_service_Add [OF c(1,2)]) simp
    from that new(2) have "next_id t \<le> GetNodeId m" by simp
    from ensure_path_depth [OF assms(1) z r e m' this]
    obtain up where up: "on_path (nodes t') (GetNodeId m) up" "length up \<le> length dir" by auto
    from on_path_unique [OF c(1) a' up(1)] have "length up = Suc (length dir)" by auto
    with up(2) show False by simp
  qed
  have leaf: "on_path (nodes ?t2) (GetNodeId ?leaf) ?up"
    using assms(2) c(3) by (subst on_path_service_Add [OF c(1,2)]) simp
  have f1: "filter (\<lambda>n. on_path (nodes ?t2) (GetNodeId n) ?up) (nodes t) = nodes_at t ?up"
    unfolding nodes_at_def using old by (intro filter_cong) (simp_all del: on_path.simps)
  have f2: "filter (\<lambda>n. on_path (nodes ?t2) (GetNodeId n) ?up) new = []"
    using mid by (simp del: on_path.simps add: filter_empty_conv)
  have f3: "filter (\<lambda>n. on_path (nodes ?t2) (GetNodeId n) ?up) [?leaf] = [?leaf]"
    using leaf by (simp del: on_path.simps)
  have "nodes_at ?t2 ?up =
          filter (\<lambda>n. on_path (nodes ?t2) (GetNodeId n) ?up) (nodes t) @
          filter (\<lambda>n. on_path (nodes ?t2) (GetNodeId n) ?up) new @
          filter (\<lambda>n. on_path (nodes ?t2) (GetNodeId n) ?up) [?leaf]"
    unfolding nodes_at_def by (subst n2) (simp only: filter_append)
  then have "nodes_at ?t2 ?up = nodes_at t ?up @ [?leaf]"
    by (simp only: f1 f2 f3 append_Nil)
  moreover have "service_AddByPath t dir meta = (RpcOk (), ?t2)"
    by (simp add: service_AddByPath_def e)
  ultimately show ?thesis using wf2 c(4) by auto
qed


lemma on_path_map:
  assumes "\<forall>n \<in> set ns. GetNodeId (f n) = GetNodeId n \<and> GetParentId (f n) = GetParentId n \<and>
                        path_attribute (f n) = path_attribute n"
  shows "on_path (map f ns) i up = on_path ns i up"
proof (induction up arbitrary: i)
  case Nil
  show ?case by simp
next
  case (Cons seg up')
  show ?case using assms by (auto simp: list_ex_iff Cons.IH)
qed

lemma service_Move_in_place:
  assumes "wf_tree t" "n1 \<in> set (nodes t)" "map_of meta fileNameKV = path_attribute n1"
  defines "f \<equiv> \<lambda>n. if GetNodeId n = GetNodeId n1
                     then n\<lparr>GetParentId := GetParentId n1, GetTimestamp := clock t,
                            GetMeta := meta\<rparr>
                     else n"
  shows "\<exists>t'. service_Move t (GetNodeId n1) (GetParentId n1) meta = (RpcOk (), t') \<and>
              wf_tree t' \<and> nodes t' = map f (nodes t) \<and>
              (\<forall>up. nodes_at t' up = map f (nodes_at t up))"
proof -
  let ?t' = "t\<lparr>nodes := map f (nodes t), clock := Suc (clock t)\<rparr>"
  have ex: "list_ex (\<lambda>n. GetNodeId n = GetNodeId n1) (nodes t)"
    using assms(2) by (auto simp: list_ex_iff)
  have mv: "service_Move t (GetNodeId n1) (GetParentId n1) meta = (RpcOk (), ?t')"
    using ex by (simp add: service_Move_def f_def)
  have same: "GetNodeId (f n) = GetNodeId n \<and> GetParentId (f n) = GetParentId n \<and>
              path_attribute (f n) = path_attribute n" if "n \<in> set (nodes t)" for n
  proof (cases "GetNodeId n = GetNodeId n1")
    case True
    from same_id_same_node [OF assms(1) that assms(2) True] assms(3) show ?thesis
      by (simp add: f_def path_attribute_def)
  next
    case False
    then show ?thesis by (simp add: f_def)
  qed
  have ids: "map GetNodeId (map f (nodes t)) = map GetNodeId (nodes t)"
    using same by simp
  have wf: "wf_tree ?t'"
    using assms(1) same unfolding wf_tree_def by (simp add: ids del: map_map)
  have at: "nodes_at ?t' up = map f (nodes_at t up)" for up
  proof -
    have "on_path (map f (nodes t)) i up = on_path (nodes t) i up" for i
      using same by (intro on_path_map) blast
    then have "nodes_at ?t' up =
        filter (\<lambda>n. on_path (nodes t) (GetNodeId n) up) (map f (nodes t))"
      by (simp add: nodes_at_def)
    also have "\<dots> = map f (filter (\<lambda>n. on_path (nodes t) (GetNodeId (f n)) up) (nodes t))"
      by (simp add: filter_map comp_def)
    also have "\<dots> = map f (nodes_at t up)"
      unfolding nodes_at_def using same by (intro arg_cong [where f = "map f"] filter_cong) simp_all
    finally show ?thesis .
  qed
  from mv wf at show ?thesis by auto
qed

lemma getVersions_loop_append:
  assumes "getVersions_loop E K only xs = Inr a" "getVersions_loop E K only ys = Inr b"
  shows "getVersions_loop E K only (xs @ ys) = Inr (a @ b)"
  using assms by (induction xs arbitrary: a) (auto split: sum.splits if_splits)

lemma getVersions_loop_all:
  assumes "getVersions_loop E K True xs = Inr a"
  shows "\<exists>b. getVersions_loop E K False xs = Inr b"
  using assms by (induction xs arbitrary: a) (auto split: sum.splits if_splits)

lemma getVersions_service:
  "getVersions E (service_GetNodeByPath t) K only =
     getVersions_loop E K only
       (map (project_attributes
               \<lparr>Path = pathFromName K,
                Attributes = [oidKV, isUnversionedKV, isDeleteMarkerKV, etagKV, sizeKV],
                LatestOnly = False, AllAttrs = False\<rparr>)
            (nodes_at t (rev (pathFromName K))))"
  by (simp add: getVersions_def getNodes_def service_GetNodeByPath_def Let_def)

lemmas KV_defs =
  oidKV_def fileNameKV_def isUnversionedKV_def sizeKV_def etagKV_def isDeleteMarkerKV_def
  ownerKV_def createdKV_def

lemma decode_slot_node:
  assumes "\<forall>x. oid_DecodeString E (oid_EncodeToString E x) = Inr x"
    and "GetMeta nd = addVersion_meta E v P @ [(isUnversionedKV, ''true'')]"
  shows "\<exists>nv. newNodeVersion E K
                (project_attributes
                   \<lparr>Path = P', Attributes = [oidKV, isUnversionedKV, isDeleteMarkerKV, etagKV, sizeKV],
                    LatestOnly = False, AllAttrs = False\<rparr> nd) = Inr nv \<and>
              OID nv = OID v \<and> nv_ID nv = GetNodeId nd \<and> IsUnversioned nv"
  using assms
  by (auto simp: newNodeVersion_def newTreeNode_def project_attributes_def addVersion_meta_def
      Let_def newNodeVersionFromTreeNode_def Get_def ParseInt_FormatInt KV_defs
      split: option.splits)

lemma slot_meta_FileName:
  "map_of (addVersion_meta E v P @ [(isUnversionedKV, ''true'')]) fileNameKV =
     Some (P ! (length P - 1))"
  by (simp add: addVersion_meta_def Let_def KV_defs split: option.splits)


lemma pathFromName_not_Nil: "pathFromName K \<noteq> []"
  using Split_not_Nil [of separator K] by (simp add: pathFromName_def Let_def)

lemma rev_pathFromName:
  "rev (pathFromName K) =
     pathFromName K ! (length (pathFromName K) - 1) # rev (butlast (pathFromName K))"
proof -
  have "pathFromName K = butlast (pathFromName K) @ [last (pathFromName K)]"
    using pathFromName_not_Nil by simp
  then have "rev (pathFromName K) = last (pathFromName K) # rev (butlast (pathFromName K))"
    by (metis rev.simps(2) rev_rev_ident rev_singleton_conv rev_append append_Cons append_Nil)
  then show ?thesis using pathFromName_not_Nil by (simp add: last_conv_nth)
qed

lemma addVersion_first_call:
  fixes K :: string
  defines "pK \<equiv> \<lparr>Path = pathFromName K,
                   Attributes = [oidKV, isUnversionedKV, isDeleteMarkerKV, etagKV, sizeKV],
                   LatestOnly = False, AllAttrs = False\<rparr>"
  assumes "wf_tree t" "IsUnversioned v" "FilePath v = K"
    and "getVersions E (service_GetNodeByPath t) K True = Inr []"
  shows "\<exists>t' n. addVersion E t v = (None, t') \<and> wf_tree t' \<and>
           nodes_at t' (rev (pathFromName K)) = nodes_at t (rev (pathFromName K)) @ [n] \<and>
           GetMeta n = addVersion_meta E v (pathFromName K) @ [(isUnversionedKV, ''true'')]"
proof -
  let ?P = "pathFromName K"
  let ?meta = "addVersion_meta E v ?P @ [(isUnversionedKV, ''true'')]"
  have nf: "getUnversioned E (service_GetNodeByPath t) K = Inl ErrNodeNotFound"
    using assms(5) by (simp add: getUnversioned_def)
  have av: "addVersion E t v = addNodeByPath t (butlast ?P) ?meta"
    using assms(3,4) nf by (simp add: addVersion_def Let_def)
  from service_AddByPath_nodes_at [OF assms(2) slot_meta_FileName [of E v ?P], of "butlast ?P"]
  obtain t'' leaf where a: "service_AddByPath t (butlast ?P) ?meta = (RpcOk (), t'')"
      "wf_tree t''"
      "nodes_at t'' (?P ! (length ?P - 1) # rev (butlast ?P)) =
         nodes_at t (?P ! (length ?P - 1) # rev (butlast ?P)) @ [leaf]"
      "GetMeta leaf = ?meta"
    by blast
  from a(3) have "nodes_at t'' (rev ?P) = nodes_at t (rev ?P) @ [leaf]"
    by (simp only: rev_pathFromName [symmetric])
  moreover have "addVersion E t v = (None, t'')"
    by (simp add: av addNodeByPath_def a(1))
  ultimately show ?thesis using a(2,4) by blast
qed

lemma getParent_service:
  assumes "wf_tree t" "n \<in> set (nodes t)"
  shows "getParent (service_GetSubTree t) (GetNodeId n) = Inr (GetParentId n)"
proof -
  from assms have nz: "GetNodeId n \<noteq> 0" by (auto simp: wf_tree_def)
  obtain m where m: "find (\<lambda>x. GetNodeId x = GetNodeId n) (nodes t) = Some m"
    using assms(2) by (cases "find (\<lambda>x. GetNodeId x = GetNodeId n) (nodes t)")
      (auto simp: find_None_iff)
  then have "m \<in> set (nodes t)" "GetNodeId m = GetNodeId n"
    by (auto simp: find_Some_iff)
  from same_id_same_node [OF assms(1) this(1) assms(2) this(2)] have "m = n" .
  with m nz show ?thesis
    by (simp add: getParent_def getSubTree_def service_GetSubTree_def)
qed

lemma addVersion_later_call:
  fixes K :: string
  defines "pK \<equiv> \<lparr>Path = pathFromName K,
                   Attributes = [oidKV, isUnversionedKV, isDeleteMarkerKV, etagKV, sizeKV],
                   LatestOnly = False, AllAttrs = False\<rparr>"
  assumes codec: "\<forall>x. oid_DecodeString E (oid_EncodeToString E x) = Inr x"
    and wf: "wf_tree t" and v: "IsUnversioned v" "FilePath v = K"
    and at: "nodes_at t (rev (pathFromName K)) = A @ [n]"
    and A: "getVersions_loop E K True (map (project_attributes pK) A) = Inr []"
    and n: "GetMeta n = addVersion_meta E v0 (pathFromName K) @ [(isUnversionedKV, ''true'')]"
  shows "\<exists>t' n'. addVersion E t v = (None, t') \<and> wf_tree t' \<and>
           nodes_at t' (rev (pathFromName K)) = A @ [n'] \<and>
           GetNodeId n' = GetNodeId n \<and>
           GetMeta n' = addVersion_meta E v (pathFromName K) @ [(isUnversionedKV, ''true'')] \<and>
           length (nodes t') = length (nodes t)"
proof -
  let ?P = "pathFromName K"
  let ?meta = "addVersion_meta E v ?P @ [(isUnversionedKV, ''true'')]"
  from decode_slot_node [OF codec n, of K ?P]
  obtain nv where nv: "newNodeVersion E K (project_attributes pK n) = Inr nv"
      "nv_ID nv = GetNodeId n" "IsUnversioned nv"
    unfolding pK_def by blast
  have one: "getVersions_loop E K True (map (project_attributes pK) [n]) = Inr [nv]"
    using nv by simp
  have "getVersions E (service_GetNodeByPath t) K True = Inr ([] @ [nv])"
    unfolding getVersions_service pK_def [symmetric] at map_append
    by (rule getVersions_loop_append [OF A one])
  then have gu: "getUnversioned E (service_GetNodeByPath t) K = Inr nv"
    by (simp add: getUnversioned_def)
  have mem: "set (A @ [n]) \<subseteq> set (nodes t)"
    unfolding at [symmetric] nodes_at_def by auto
  then have nmem: "n \<in> set (nodes t)" by simp
  have gp: "getParent (service_GetSubTree t) (nv_ID nv) = Inr (GetParentId n)"
    using getParent_service [OF wf nmem] nv(2) by simp
  have av: "addVersion E t v = moveNode t (GetNodeId n) (GetParentId n) ?meta"
    using v gu gp nv(2) by (simp add: addVersion_def Let_def)
  have attr: "map_of ?meta fileNameKV = path_attribute n"
    by (simp only: slot_meta_FileName path_attribute_def n)
  define f :: "node \<Rightarrow> node" where "f = (\<lambda>x. if GetNodeId x = GetNodeId n
                     then x\<lparr>GetParentId := GetParentId n, GetTimestamp := clock t,
                            GetMeta := ?meta\<rparr>
                     else x)"
  from service_Move_in_place [OF wf nmem attr]
  obtain t' where t': "service_Move t (GetNodeId n) (GetParentId n) ?meta = (RpcOk (), t')"
      "wf_tree t'" "nodes t' = map f (nodes t)" "\<forall>up. nodes_at t' up = map f (nodes_at t up)"
    unfolding f_def by blast
  have "distinct (map GetNodeId (nodes_at t (rev ?P)))"
    using wf unfolding nodes_at_def wf_tree_def by (simp add: distinct_map_filter)
  then have dA: "GetNodeId n \<notin> GetNodeId ` set A" unfolding at by simp
  have "\<forall>a \<in> set A. GetNodeId a \<noteq> GetNodeId n"
  proof (intro ballI notI)
    fix a assume "a \<in> set A" "GetNodeId a = GetNodeId n"
    then have "GetNodeId n \<in> GetNodeId ` set A" by (metis imageI)
    with dA show False by simp
  qed
  then have fA: "map f A = A" by (simp add: f_def map_idI)
  have "nodes_at t' (rev ?P) = A @ [f n]"
    using t'(4) by (simp add: at fA)
  moreover have "GetNodeId (f n) = GetNodeId n" "GetMeta (f n) = ?meta"
    by (simp_all add: f_def)
  moreover have "addVersion E t v = (None, t')"
    by (simp add: av moveNode_def t'(1))
  moreover have "length (nodes t') = length (nodes t)" by (simp add: t'(3))
  ultimately show ?thesis using t'(2) by blast
qed


lemma AddVersion_seq_later_calls:
  fixes K :: string
  defines "pK \<equiv> \<lparr>Path = pathFromName K,
                   Attributes = [oidKV, isUnversionedKV, isDeleteMarkerKV, etagKV, sizeKV],
                   LatestOnly = False, AllAttrs = False\<rparr>"
  assumes codec: "\<forall>x. oid_DecodeString E (oid_EncodeToString E x) = Inr x"
    and vs: "\<forall>v \<in> set versions. IsUnversioned v \<and> FilePath v = K"
    and A: "getVersions_loop E K True (map (project_attributes pK) A) = Inr []"
    and wf: "wf_tree t"
    and at: "nodes_at t (rev (pathFromName K)) = A @ [n]"
    and n: "GetMeta n = addVersion_meta E v0 (pathFromName K) @ [(isUnversionedKV, ''true'')]"
  shows "\<exists>t' n'. AddVersion_seq E t versions = (None, t') \<and> wf_tree t' \<and>
           nodes_at t' (rev (pathFromName K)) = A @ [n'] \<and>
           GetNodeId n' = GetNodeId n \<and>
           GetMeta n' = addVersion_meta E (last (v0 # versions)) (pathFromName K) @
                          [(isUnversionedKV, ''true'')] \<and>
           length (nodes t') = length (nodes t)"
  using vs wf at n
proof (induction versions arbitrary: t n v0)
  case Nil
  then show ?case by simp
next
  case (Cons v versions)
  from Cons.prems(1) have v: "IsUnversioned v" "FilePath v = K" by simp_all
  from addVersion_later_call [OF codec Cons.prems(2) v Cons.prems(3) A [unfolded pK_def]
      Cons.prems(4)]
  obtain t1 n1 where s: "addVersion E t v = (None, t1)" "wf_tree t1"
      "nodes_at t1 (rev (pathFromName K)) = A @ [n1]" "GetNodeId n1 = GetNodeId n"
      "GetMeta n1 = addVersion_meta E v (pathFromName K) @ [(isUnversionedKV, ''true'')]"
      "length (nodes t1) = length (nodes t)"
    by blast
  from Cons.prems(1) have rest: "\<forall>v \<in> set versions. IsUnversioned v \<and> FilePath v = K" by simp
  from Cons.IH [OF rest s(2,3,5)]
  obtain t' n' where r: "AddVersion_seq E t1 versions = (None, t')" "wf_tree t'"
      "nodes_at t' (rev (pathFromName K)) = A @ [n']" "GetNodeId n' = GetNodeId n1"
      "GetMeta n' = addVersion_meta E (last (v # versions)) (pathFromName K) @
                      [(isUnversionedKV, ''true'')]"
      "length (nodes t') = length (nodes t1)"
    by blast
  have "AddVersion_seq E t (v # versions) = (None, t')"
    by (simp add: AddVersion_def s(1) r(1))
  with r s(4,6) show ?case by auto
qed

lemma decimal_codec: "\<forall>x. oid_DecodeString decimal_sdk (oid_EncodeToString decimal_sdk x) = Inr x"
  by (simp add: decimal_sdk_def decimal_DecodeString_def parse_digits_FormatUint)

text \<open>
  Claim C6, as the code has it. Take a tree as the service keeps it, a key \<open>K\<close> at which
  listing the unversioned versions succeeds and finds none, and one or more calls of
  \<open>AddVersion\<close>, one after the other, each with \<open>IsUnversioned\<close> set and the file path
  \<open>K\<close>. Every call succeeds. Afterwards exactly one unversioned version node is at the
  path, its object id is the one of the last call, and it is the node the first call
  created: its id is the same, and the later calls add no node (they move it in place).
  The versions that were at the path stay as they were: the path holds exactly one
  version node when it held none, and one more than before otherwise.
\<close>

theorem unversioned_slot:
  assumes codec: "\<forall>x. oid_DecodeString E (oid_EncodeToString E x) = Inr x"
    and wf: "wf_tree t"
    and ne: "versions \<noteq> []"
    and vs: "\<forall>v \<in> set versions. IsUnversioned v \<and> FilePath v = K"
    and free: "getVersions E (service_GetNodeByPath t) K True = Inr []"
  shows "\<exists>t1 t' v1 v' old.
      AddVersion E t (hd versions) = (None, t1) \<and>
      getVersions E (service_GetNodeByPath t1) K True = Inr [v1] \<and>
      AddVersion_seq E t versions = (None, t') \<and>
      getVersions E (service_GetNodeByPath t') K True = Inr [v'] \<and>
      OID v' = OID (last versions) \<and> nv_ID v' = nv_ID v1 \<and>
      length (nodes t') = length (nodes t1) \<and>
      GetVersions E (service_GetNodeByPath t) K = Inr old \<and>
      GetVersions E (service_GetNodeByPath t') K = Inr (old @ [v'])"
proof -
  let ?P = "pathFromName K"
  let ?pK = "\<lparr>Path = ?P, Attributes = [oidKV, isUnversionedKV, isDeleteMarkerKV, etagKV, sizeKV],
              LatestOnly = False, AllAttrs = False\<rparr>"
  let ?A = "nodes_at t (rev ?P)"
  obtain v rest where vr: "versions = v # rest" using ne by (cases versions) auto
  with vs have v: "IsUnversioned v" "FilePath v = K"
    and rest: "\<forall>v \<in> set rest. IsUnversioned v \<and> FilePath v = K" by simp_all
  have A: "getVersions_loop E K True (map (project_attributes ?pK) ?A) = Inr []"
    using free by (simp only: getVersions_service)
  from getVersions_loop_all [OF A]
  obtain old where old: "getVersions_loop E K False (map (project_attributes ?pK) ?A) = Inr old"
    by blast
  from addVersion_first_call [OF wf v free]
  obtain t1 n1 where f: "addVersion E t v = (None, t1)" "wf_tree t1"
      "nodes_at t1 (rev ?P) = ?A @ [n1]"
      "GetMeta n1 = addVersion_meta E v ?P @ [(isUnversionedKV, ''true'')]"
    by blast
  from AddVersion_seq_later_calls [OF codec rest A f(2,3,4)]
  obtain t' n' where r: "AddVersion_seq E t1 rest = (None, t')"
      "nodes_at t' (rev ?P) = ?A @ [n']" "GetNodeId n' = GetNodeId n1"
      "GetMeta n' = addVersion_meta E (last (v # rest)) ?P @ [(isUnversionedKV, ''true'')]"
      "length (nodes t') = length (nodes t1)"
    by blast
  from decode_slot_node [OF codec f(4), of K ?P]
  obtain v1 where v1: "newNodeVersion E K (project_attributes ?pK n1) = Inr v1"
      "nv_ID v1 = GetNodeId n1" "IsUnversioned v1" by blast
  from decode_slot_node [OF codec r(4), of K ?P]
  obtain v' where v': "newNodeVersion E K (project_attributes ?pK n') = Inr v'"
      "OID v' = OID (last (v # rest))" "nv_ID v' = GetNodeId n'" "IsUnversioned v'" by blast
  have one1: "getVersions_loop E K True (map (project_attributes ?pK) [n1]) = Inr [v1]"
    using v1 by simp
  have one': "getVersions_loop E K only (map (project_attributes ?pK) [n']) = Inr [v']" for only
    using v' by simp
  have g1: "getVersions E (service_GetNodeByPath t1) K True = Inr [v1]"
    unfolding getVersions_service f(3) map_append
    using getVersions_loop_append [OF A one1] by simp
  have g': "getVersions E (service_GetNodeByPath t') K True = Inr [v']"
    unfolding getVersions_service r(2) map_append
    using getVersions_loop_append [OF A one'] by simp
  have gold: "GetVersions E (service_GetNodeByPath t) K = Inr old"
    unfolding GetVersions_def getVersions_service by (rule old)
  have gall: "GetVersions E (service_GetNodeByPath t') K = Inr (old @ [v'])"
    unfolding GetVersions_def getVersions_service r(2) map_append
    by (rule getVersions_loop_append [OF old one'])
  have first: "AddVersion E t (hd versions) = (None, t1)"
    by (simp add: vr AddVersion_def f(1))
  have seq: "AddVersion_seq E t versions = (None, t')"
    by (simp add: vr AddVersion_def f(1) r(1))
  from first g1 seq g' v'(2,3) v1(2) r(3,5) gold gall vr show ?thesis
    by (intro exI [of _ t1] exI [of _ t'] exI [of _ v1] exI [of _ v'] exI [of _ old]) simp
qed

theorem unversioned_slot_witness:
  "(\<forall>x. oid_DecodeString decimal_sdk (oid_EncodeToString decimal_sdk x) = Inr x) \<and>
   wf_tree empty_tree \<and>
   [an_unversioned ''a/b'' 5, an_unversioned ''a/b'' 6] \<noteq> [] \<and>
   IsUnversioned (an_unversioned ''a/b'' 5) \<and> FilePath (an_unversioned ''a/b'' 5) = ''a/b'' \<and>
   IsUnversioned (an_unversioned ''a/b'' 6) \<and> FilePath (an_unversioned ''a/b'' 6) = ''a/b'' \<and>
   getVersions decimal_sdk (service_GetNodeByPath empty_tree) ''a/b'' True = Inr [] \<and>
   (\<exists>t' v'. AddVersion_seq decimal_sdk empty_tree
               [an_unversioned ''a/b'' 5, an_unversioned ''a/b'' 6] = (None, t') \<and>
            getVersions decimal_sdk (service_GetNodeByPath t') ''a/b'' True = Inr [v'] \<and>
            OID v' = 6)"
proof -
  let ?vs = "[an_unversioned ''a/b'' 5, an_unversioned ''a/b'' 6]"
  have wf: "wf_tree empty_tree" by (simp add: wf_tree_def empty_tree_def)
  have ne: "?vs \<noteq> []" by simp
  have vs: "\<forall>v \<in> set ?vs. IsUnversioned v \<and> FilePath v = ''a/b''"
    by (simp add: an_unversioned_def)
  have free: "getVersions decimal_sdk (service_GetNodeByPath empty_tree) ''a/b'' True = Inr []"
    by (simp add: getVersions_service nodes_at_def empty_tree_def)
  from unversioned_slot [OF decimal_codec wf ne vs free]
  obtain t' v' where "AddVersion_seq decimal_sdk empty_tree ?vs = (None, t')"
      "getVersions decimal_sdk (service_GetNodeByPath t') ''a/b'' True = Inr [v']"
      "OID v' = OID (last ?vs)"
    by blast
  then have "\<exists>t' v'. AddVersion_seq decimal_sdk empty_tree ?vs = (None, t') \<and>
            getVersions decimal_sdk (service_GetNodeByPath t') ''a/b'' True = Inr [v'] \<and>
            OID v' = 6"
    by (intro exI [of _ t'] exI [of _ v']) (simp add: an_unversioned_def)
  with decimal_codec wf ne free show ?thesis by (simp add: an_unversioned_def)
qed

text \<open>
  A path that holds a versioned node and no unversioned one: after an unversioned write
  it holds two version nodes.
\<close>

lemmas version_eval =
  AddVersion_def addVersion_def addVersion_meta_def getUnversioned_def getVersions_service
  GetVersions_def nodes_at_def addNodeByPath_def service_AddByPath_def service_Add_def
  path_attribute_def project_attributes_def newNodeVersion_def newTreeNode_def
  newNodeVersionFromTreeNode_def Get_def pathFromName_def separator_def emptyFileName_def
  an_unversioned_def empty_tree_def decimal_sdk_def decimal_DecodeString_def
  ParseInt_def parse_digits_def is_digit_def digit_val_def FormatInt_def FormatUint.simps
  digit_char_def KV_defs

lemma versioned_then_unversioned_first:
  "AddVersion decimal_sdk empty_tree ((an_unversioned ''k'' 4)\<lparr>IsUnversioned := False\<rparr>) =
     (None,
      \<lparr>nodes = [\<lparr>GetNodeId = 1, GetParentId = 0, GetTimestamp = 0,
                  GetMeta = [(oidKV, ''4''), (fileNameKV, ''k''), (sizeKV, ''10''),
                             (etagKV, ''etag'')]\<rparr>],
       next_id = 2, clock = 1\<rparr>)"
  by (simp add: version_eval)

theorem unversioned_slot_counterexample:
  "getVersions decimal_sdk
     (service_GetNodeByPath
        (snd (AddVersion decimal_sdk empty_tree ((an_unversioned ''k'' 4)\<lparr>IsUnversioned := False\<rparr>))))
     ''k'' True = Inr [] \<and>
   fst (AddVersion decimal_sdk
          (snd (AddVersion decimal_sdk empty_tree ((an_unversioned ''k'' 4)\<lparr>IsUnversioned := False\<rparr>)))
          (an_unversioned ''k'' 5)) = None \<and>
   GetVersions decimal_sdk
     (service_GetNodeByPath
        (snd (AddVersion decimal_sdk
                (snd (AddVersion decimal_sdk empty_tree
                        ((an_unversioned ''k'' 4)\<lparr>IsUnversioned := False\<rparr>)))
                (an_unversioned ''k'' 5))))
     ''k'' =
   Inr [\<lparr>nv_ID = 1, OID = 4, Timestamp = 0, nv_Size = 10, ETag = ''etag'', FilePath = ''k'',
         DeleteMarker = None, IsUnversioned = False\<rparr>,
        \<lparr>nv_ID = 2, OID = 5, Timestamp = 1, nv_Size = 10, ETag = ''etag'', FilePath = ''k'',
         DeleteMarker = None, IsUnversioned = True\<rparr>]"
  unfolding versioned_then_unversioned_first snd_conv
  by (simp add: version_eval)

end
